theory Spec2Isabelle
  imports Main "HOL-Library.Sublist"
begin

unbundle bit_operations_syntax

section \<open>The host intermediate representation\<close>

text \<open>
  The pass \<^verbatim>\<open>ObfuscateZero\<close> (file \<^verbatim>\<open>ObfuscateZero.cpp\<close>) works on LLVM's
  in-memory representation. Only the part of it the pass touches is modelled: the type
  categories the pass tests for, values with their type, instructions with their
  opcode, operand list and result type, and a basic block as the list of its
  instructions in block order.
\<close>

datatype llvm_type = IntegerTy nat | PointerTy | FloatingPointTy | OtherTy

text \<open>
  A value is a constant (its type and its bit pattern, \<open>0\<close> for the null value of the
  type), the result of an instruction (the identity of the instruction and its type), or
  anything else an operand can refer to (an argument, a label, ...).
\<close>

datatype llvm_value =
    Constant llvm_type nat
  | InstValue nat llvm_type
  | OtherValue nat llvm_type

datatype opcode =
    GetElementPtr | Switch | Call | PHI | LandingPad
  | ZExt | Trunc | And | Or | Mul | ICmpEQ
  | OtherOp nat

record instruction =
  iid :: nat
  opcode :: opcode
  operands :: "llvm_value list"
  itype :: llvm_type

fun getType :: "llvm_value \<Rightarrow> llvm_type" where
  "getType (Constant t b) = t"
| "getType (InstValue n t) = t"
| "getType (OtherValue n t) = t"

fun isIntegerTy :: "llvm_type \<Rightarrow> bool" where
  "isIntegerTy (IntegerTy w) = True"
| "isIntegerTy t = False"

fun isPointerTy :: "llvm_type \<Rightarrow> bool" where
  "isPointerTy PointerTy = True"
| "isPointerTy t = False"

fun isFloatingPointTy :: "llvm_type \<Rightarrow> bool" where
  "isFloatingPointTy FloatingPointTy = True"
| "isFloatingPointTy t = False"

text \<open>
  \<^verbatim>\<open>Type::getScalarSizeInBits\<close> on the categories above: the width of an integer
  type. The pass asks it, through \<^verbatim>\<open>CreateZExtOrTrunc\<close>, about pool values only, and
  these have an integer type.
\<close>

fun getScalarSizeInBits :: "llvm_type \<Rightarrow> nat" where
  "getScalarSizeInBits (IntegerTy w) = w"
| "getScalarSizeInBits t = 0"

fun isConstant :: "llvm_value \<Rightarrow> bool" where
  "isConstant (Constant t b) = True"
| "isConstant v = False"

text \<open>\<^verbatim>\<open>Constant::isNullValue\<close>: the all-zero bit pattern.\<close>

fun isNullValue :: "llvm_value \<Rightarrow> bool" where
  "isNullValue (Constant t b) = (b = 0)"
| "isNullValue v = False"

text \<open>The value an instruction defines (in LLVM the instruction object itself).\<close>

definition valueOf :: "instruction \<Rightarrow> llvm_value" where
  "valueOf I = InstValue (iid I) (itype I)"

definition getNumOperands :: "instruction \<Rightarrow> nat" where
  "getNumOperands I = length (operands I)"

definition getOperand :: "instruction \<Rightarrow> nat \<Rightarrow> llvm_value" where
  "getOperand I i = operands I ! i"

definition setOperand :: "instruction \<Rightarrow> nat \<Rightarrow> llvm_value \<Rightarrow> instruction" where
  "setOperand I i v = I\<lparr>operands := (operands I)[i := v]\<rparr>"

text \<open>
  \<^verbatim>\<open>BasicBlock::getFirstInsertionPt\<close>, as a position in the block: the first
  instruction that is not a phi node, or the one after it when that is an
  exception-handling pad; the length of the block when there is none.
\<close>

definition isPHI :: "instruction \<Rightarrow> bool" where
  "isPHI I = (opcode I = PHI)"

definition getFirstNonPHI :: "instruction list \<Rightarrow> nat" where
  "getFirstNonPHI BB = length (takeWhile isPHI BB)"

definition getFirstInsertionPt :: "instruction list \<Rightarrow> nat" where
  "getFirstInsertionPt BB =
     (let k = getFirstNonPHI BB
      in if k < length BB \<and> opcode (BB ! k) = LandingPad then Suc k else k)"

section \<open>The pass object and the services it uses\<close>

text \<open>
  The members of the pass are \<open>IntegerVect\<close> (the value pool) and \<open>Generator\<close>. The
  random engine is the sequence of raw numbers it is still going to produce, so every
  possible run of the engine is one such sequence. The block under transformation is
  mutated through the builder; \<open>preceding\<close> holds the instructions in front of the
  instruction being visited, in block order, and \<open>nextId\<close> is the identity the next
  created instruction gets.
\<close>

record pass_state =
  IntegerVect :: "llvm_value list"
  Generator :: "nat \<Rightarrow> nat"
  preceding :: "instruction list"
  nextId :: nat

text \<open>
  The ways a call into the pass can end without a result: \<^verbatim>\<open>std::out_of_range\<close> thrown
  by \<^verbatim>\<open>std::vector::at\<close>, and a cast the builder is asked for that LLVM does not allow.
\<close>

datatype error = OutOfRange | InvalidCast

text \<open>
  \<^verbatim>\<open>std::uniform_int_distribution<size_t>(a, b)\<close> applied to the engine: a number of
  \<open>[a, b]\<close> and the advanced engine.
\<close>

definition uniform_int_distribution ::
  "nat \<Rightarrow> nat \<Rightarrow> (nat \<Rightarrow> nat) \<Rightarrow> nat \<times> (nat \<Rightarrow> nat)" where
  "uniform_int_distribution a b g = (a + g 0 mod (b - a + 1), \<lambda>n. g (Suc n))"

text \<open>\<^verbatim>\<open>std::vector::at\<close>: the element, or the exception \<^verbatim>\<open>std::out_of_range\<close>.\<close>

definition at :: "'a list \<Rightarrow> nat \<Rightarrow> error + 'a" where
  "at xs i = (if i < length xs then Inr (xs ! i) else Inl OutOfRange)"

text \<open>\<^verbatim>\<open>ConstantInt::get(Ty, V)\<close>: the constant of the type with the value truncated to its width.\<close>

definition ConstantInt_get :: "llvm_type \<Rightarrow> nat \<Rightarrow> llvm_value" where
  "ConstantInt_get Ty V = Constant Ty (V mod 2 ^ getScalarSizeInBits Ty)"

text \<open>
  The builder is anchored at the visited instruction (\<^verbatim>\<open>IRBuilder<> Builder(&Inst)\<close>):
  a created instruction goes right in front of it, that is, at the end of
  \<open>preceding\<close>. The builder's constant folding applies to constant operands only (and
  to an all-ones or zero mask), which the pass never passes: the left operand is a pool
  value or a value just built.
\<close>

definition Insert ::
  "opcode \<Rightarrow> llvm_value list \<Rightarrow> llvm_type \<Rightarrow> pass_state \<Rightarrow> llvm_value \<times> pass_state" where
  "Insert opc ops t st =
     (InstValue (nextId st) t,
      st\<lparr>preceding := preceding st @ [\<lparr>iid = nextId st, opcode = opc, operands = ops, itype = t\<rparr>],
         nextId := Suc (nextId st)\<rparr>)"

text \<open>
  \<^verbatim>\<open>CastInst::castIsValid\<close> for the two casts the pass asks for, on the type categories
  above: \<open>zext\<close> goes from an integer type to a wider integer type, \<open>trunc\<close> to a
  narrower one. A type of the category \<open>OtherTy\<close> (a vector, an array, a structure, ...)
  is never the other end of a cast from or to a scalar integer type; the pass has a scalar
  integer type at one end of every cast (the 32-bit intermediary type, or \<open>i1\<close>, the
  type of the comparison).
\<close>

definition castIsValid :: "opcode \<Rightarrow> llvm_type \<Rightarrow> llvm_type \<Rightarrow> bool" where
  "castIsValid opc SrcTy DstTy =
     (isIntegerTy SrcTy \<and> isIntegerTy DstTy \<and>
      (if opc = ZExt then getScalarSizeInBits SrcTy < getScalarSizeInBits DstTy
       else if opc = Trunc then getScalarSizeInBits SrcTy > getScalarSizeInBits DstTy
       else False))"

text \<open>
  \<^verbatim>\<open>IRBuilder::CreateZExt\<close> and \<^verbatim>\<open>CreateTrunc\<close> return their argument when it
  already has the wanted type, and create the cast instruction otherwise. The constructor
  of the instruction asserts \<^verbatim>\<open>castIsValid\<close>: when the cast is not valid, LLVM built
  with assertions aborts there, and LLVM built without them puts an instruction into the
  block that is not valid IR. Either way the call has failed; it is \<open>InvalidCast\<close> here.
  \<^verbatim>\<open>CreateZExtOrTrunc\<close> asserts that both types are integer types, then compares the
  widths.
\<close>

definition CreateZExt ::
  "llvm_value \<Rightarrow> llvm_type \<Rightarrow> pass_state \<Rightarrow> error + (llvm_value \<times> pass_state)" where
  "CreateZExt V DestTy st =
     (if getType V = DestTy then Inr (V, st)
      else if castIsValid ZExt (getType V) DestTy then Inr (Insert ZExt [V] DestTy st)
      else Inl InvalidCast)"

definition CreateTrunc ::
  "llvm_value \<Rightarrow> llvm_type \<Rightarrow> pass_state \<Rightarrow> error + (llvm_value \<times> pass_state)" where
  "CreateTrunc V DestTy st =
     (if getType V = DestTy then Inr (V, st)
      else if castIsValid Trunc (getType V) DestTy then Inr (Insert Trunc [V] DestTy st)
      else Inl InvalidCast)"

definition CreateZExtOrTrunc ::
  "llvm_value \<Rightarrow> llvm_type \<Rightarrow> pass_state \<Rightarrow> error + (llvm_value \<times> pass_state)" where
  "CreateZExtOrTrunc V DestTy st =
     (let VTy = getType V
      in if \<not> (isIntegerTy VTy \<and> isIntegerTy DestTy) then Inl InvalidCast
         else if getScalarSizeInBits VTy < getScalarSizeInBits DestTy then CreateZExt V DestTy st
         else if getScalarSizeInBits VTy > getScalarSizeInBits DestTy then CreateTrunc V DestTy st
         else Inr (V, st))"

text \<open>
  The binary operators and the comparison assert that their two operands have the same
  type. The pass calls them on a value of the intermediary type just built and a constant
  of that type, or on two values just built, so these assertions always hold and the
  functions below have no failure.
\<close>

definition CreateAnd :: "llvm_value \<Rightarrow> llvm_value \<Rightarrow> pass_state \<Rightarrow> llvm_value \<times> pass_state" where
  "CreateAnd LHS RHS st = Insert And [LHS, RHS] (getType LHS) st"

definition CreateOr :: "llvm_value \<Rightarrow> llvm_value \<Rightarrow> pass_state \<Rightarrow> llvm_value \<times> pass_state" where
  "CreateOr LHS RHS st = Insert Or [LHS, RHS] (getType LHS) st"

definition CreateMul :: "llvm_value \<Rightarrow> llvm_value \<Rightarrow> pass_state \<Rightarrow> llvm_value \<times> pass_state" where
  "CreateMul LHS RHS st = Insert Mul [LHS, RHS] (getType LHS) st"

definition CreateICmpEQ :: "llvm_value \<Rightarrow> llvm_value \<Rightarrow> pass_state \<Rightarrow> llvm_value \<times> pass_state" where
  "CreateICmpEQ LHS RHS st = Insert ICmpEQ [LHS, RHS] (IntegerTy 1) st"

section \<open>The pass\<close>

subsection \<open>Eligibility\<close>

definition isValidCandidateInstruction :: "instruction \<Rightarrow> bool" where
  "isValidCandidateInstruction Inst =
     (if opcode Inst = GetElementPtr then False
      else if opcode Inst = Switch then False
      else if opcode Inst = Call then False
      else True)"

definition isValidCandidateOperand :: "llvm_value \<Rightarrow> llvm_value option" where
  "isValidCandidateOperand V =
     (if isConstant V then
        (if isPointerTy (getType V) then None
         else if isFloatingPointTy (getType V) then None
         else if isNullValue V then Some V
         else None)
      else None)"

subsection \<open>The value pool\<close>

definition registerInteger :: "llvm_value \<Rightarrow> pass_state \<Rightarrow> pass_state" where
  "registerInteger V st =
     (if isIntegerTy (getType V) then st\<lparr>IntegerVect := IntegerVect st @ [V]\<rparr> else st)"

subsection \<open>The synthesizer\<close>

text \<open>
  One side of the comparison. Lines 138--148 (``lhs'') and 151--161 (``rhs'') of the source
  are the same five statements, each followed by \<open>registerInteger\<close>, on
  \<open>IntegerVect.at(Index1)\<close>, \<open>OverflowMaskLHS\<close>, \<open>any1\<close>, \<open>prime1\<close> and on
  \<open>IntegerVect.at(Index2)\<close>, \<open>OverflowMaskRHS\<close>, \<open>any2\<close>, \<open>prime2\<close>.
\<close>

definition side ::
  "llvm_value \<Rightarrow> llvm_type \<Rightarrow> llvm_value \<Rightarrow> llvm_value \<Rightarrow> llvm_value \<Rightarrow> pass_state \<Rightarrow>
   error + (llvm_value \<times> pass_state)" where
  "side X IntermediaryType OverflowMask any prime st0 =
     (case CreateZExtOrTrunc X IntermediaryType st0 of
        Inl e \<Rightarrow> Inl e
      | Inr (Cast, st1) \<Rightarrow>
          (let st2 = registerInteger Cast st1;
               (And', st3) = CreateAnd Cast OverflowMask st2;
               st4 = registerInteger And' st3;
               (Or', st5) = CreateOr And' any st4;
               st6 = registerInteger Or' st5;
               (Square, st7) = CreateMul Or' Or' st6;
               st8 = registerInteger Square st7;
               (Tot, st9) = CreateMul Square prime st8;
               st10 = registerInteger Tot st9
           in Inr (Tot, st10)))"

definition replaceZero ::
  "pass_state \<Rightarrow> instruction \<Rightarrow> llvm_value \<Rightarrow> error + (llvm_value option \<times> pass_state)" where
  "replaceZero st Inst VReplace =
     (let p1 = 431; p2 = 277;
          ReplacedType = getType VReplace;
          IntermediaryType = IntegerTy (4 * 8)
      in if length (IntegerVect st) < 1 then Inr (None, st)
         else
           let Rand = uniform_int_distribution 0 (length (IntegerVect st) - 1);
               RandAny = uniform_int_distribution 1 10;
               (Index1, g1) = Rand (Generator st);
               (Index2, g2) = Rand g1;
               (r1, g3) = RandAny g2;
               (r2, g4) = RandAny g3;
               any1 = ConstantInt_get IntermediaryType (1 + r1);
               any2 = ConstantInt_get IntermediaryType (1 + r2);
               prime1 = ConstantInt_get IntermediaryType p1;
               prime2 = ConstantInt_get IntermediaryType p2;
               OverflowMaskLHS = ConstantInt_get IntermediaryType 7;
               OverflowMaskRHS = ConstantInt_get IntermediaryType 7;
               st1 = st\<lparr>Generator := g4\<rparr>
           in case at (IntegerVect st1) Index1 of
                Inl e \<Rightarrow> Inl e
              | Inr X \<Rightarrow>
                  (case side X IntermediaryType OverflowMaskLHS any1 prime1 st1 of
                     Inl e \<Rightarrow> Inl e
                   | Inr (LhsTot, st2) \<Rightarrow>
                       (case at (IntegerVect st2) Index2 of
                          Inl e \<Rightarrow> Inl e
                        | Inr Y \<Rightarrow>
                            (case side Y IntermediaryType OverflowMaskRHS any2 prime2 st2 of
                               Inl e \<Rightarrow> Inl e
                             | Inr (RhsTot, st3) \<Rightarrow>
                                 (let (comp, st4) = CreateICmpEQ LhsTot RhsTot st3;
                                      st5 = registerInteger comp st4
                                  in case CreateZExt comp ReplacedType st5 of
                                       Inl e \<Rightarrow> Inl e
                                     | Inr (castComp, st6) \<Rightarrow>
                                         (let st7 = registerInteger castComp st6
                                          in Inr (Some castComp, st7)))))))"

subsection \<open>The block driver\<close>

text \<open>
  The loop over the operand indices of one instruction (lines 44--53). The number of
  operands does not change under \<open>setOperand\<close>, so the indices visited are
  \<open>0, ..., getNumOperands Inst - 1\<close>; the function takes those still to visit, and
  \<open>visit\<close> below hands it exactly these, so every \<open>getOperand\<close> and
  \<open>setOperand\<close> of a run is in range.
\<close>

fun operandLoop ::
  "pass_state \<Rightarrow> instruction \<Rightarrow> nat list \<Rightarrow> bool \<Rightarrow> error + (pass_state \<times> instruction \<times> bool)" where
  "operandLoop st Inst [] modified = Inr (st, Inst, modified)"
| "operandLoop st Inst (i # is) modified =
     (case isValidCandidateOperand (getOperand Inst i) of
        None \<Rightarrow> operandLoop st Inst is modified
      | Some C \<Rightarrow>
          (case replaceZero st Inst C of
             Inl e \<Rightarrow> Inl e
           | Inr (None, st') \<Rightarrow> operandLoop st' Inst is modified
           | Inr (Some New_val, st') \<Rightarrow> operandLoop st' (setOperand Inst i New_val) is True))"

text \<open>
  The body of the loop over the instructions (lines 42--55): the operands, then the
  instruction itself, which now stands in front of the next one, is registered.
\<close>

definition visit ::
  "pass_state \<Rightarrow> instruction \<Rightarrow> bool \<Rightarrow> error + (pass_state \<times> instruction \<times> bool)" where
  "visit st Inst modified =
     (if isValidCandidateInstruction Inst
      then operandLoop st Inst [0..<getNumOperands Inst] modified
      else Inr (st, Inst, modified))"

fun instLoop ::
  "pass_state \<Rightarrow> instruction list \<Rightarrow> bool \<Rightarrow> error + (pass_state \<times> bool)" where
  "instLoop st [] modified = Inr (st, modified)"
| "instLoop st (Inst # rest) modified =
     (case visit st Inst modified of
        Inl e \<Rightarrow> Inl e
      | Inr (st', Inst', modified') \<Rightarrow>
          instLoop (registerInteger (valueOf Inst') (st'\<lparr>preceding := preceding st' @ [Inst']\<rparr>))
            rest modified')"

text \<open>
  \<open>runOnBasicBlock\<close> clears the pool and walks the block from the first insertion point.
  It returns \<open>modified\<close>; the block it leaves behind is \<open>preceding\<close> of the state it
  returns. The call of \<^verbatim>\<open>verifyFunction\<close> in debug builds changes nothing and its result
  is not looked at, so it has no counterpart here.
\<close>

definition runOnBasicBlock ::
  "pass_state \<Rightarrow> instruction list \<Rightarrow> error + (bool \<times> pass_state)" where
  "runOnBasicBlock st BB =
     (let k = getFirstInsertionPt BB;
          st0 = st\<lparr>IntegerVect := [], preceding := take k BB\<rparr>
      in case instLoop st0 (drop k BB) False of
           Inl e \<Rightarrow> Inl e
         | Inr (st', modified) \<Rightarrow> Inr (modified, st'))"

section \<open>Run-time meaning of the emitted instructions\<close>

text \<open>
  To say what a replacement evaluates to, the instructions the synthesizer emits get
  their meaning. A run-time assignment gives every value identity a number (the unsigned
  reading of its bits); a constant evaluates to its bit pattern. \<open>zext\<close> keeps the
  number, \<open>trunc\<close> and \<open>mul\<close> reduce it modulo \<open>2 ^ w\<close> for the result type
  \<open>iw\<close>, \<open>and\<close> and \<open>or\<close> work bitwise, \<open>icmp eq\<close> gives \<open>1\<close> or \<open>0\<close>.
  An instruction of another kind, or one whose result type is not an integer type, has no
  meaning here (\<open>None\<close>).
\<close>

fun evalValue :: "(nat \<Rightarrow> nat) \<Rightarrow> llvm_value \<Rightarrow> nat" where
  "evalValue env (Constant t b) = b"
| "evalValue env (InstValue n t) = env n"
| "evalValue env (OtherValue n t) = env n"

definition evalOp :: "opcode \<Rightarrow> llvm_type \<Rightarrow> nat list \<Rightarrow> nat option" where
  "evalOp opc t args =
     (case t of
        IntegerTy w \<Rightarrow>
          (case args of
             [a] \<Rightarrow>
               (if opc = ZExt then Some a
                else if opc = Trunc then Some (a mod 2 ^ w)
                else None)
           | [a, b] \<Rightarrow>
               (if opc = And then Some (a AND b)
                else if opc = Or then Some (a OR b)
                else if opc = Mul then Some ((a * b) mod 2 ^ w)
                else if opc = ICmpEQ then Some (if a = b then 1 else 0)
                else None)
           | _ \<Rightarrow> None)
      | _ \<Rightarrow> None)"

definition execInst :: "(nat \<Rightarrow> nat) \<Rightarrow> instruction \<Rightarrow> (nat \<Rightarrow> nat) option" where
  "execInst env I =
     map_option (\<lambda>r. env(iid I := r))
       (evalOp (opcode I) (itype I) (map (evalValue env) (operands I)))"

fun execInsts :: "(nat \<Rightarrow> nat) \<Rightarrow> instruction list \<Rightarrow> (nat \<Rightarrow> nat) option" where
  "execInsts env [] = Some env"
| "execInsts env (I # Is) = (case execInst env I of None \<Rightarrow> None | Some env' \<Rightarrow> execInsts env' Is)"

text \<open>
  The number one side of the comparison computes from the cast pool value \<open>x\<close>
  (lines 141--147 and 154--160): mask, or, square, times the prime, in 32-bit arithmetic.
\<close>

definition sideValue :: "nat \<Rightarrow> nat \<Rightarrow> nat \<Rightarrow> nat \<Rightarrow> nat" where
  "sideValue x m a p =
     ((((x AND m) OR a) * ((x AND m) OR a)) mod 2 ^ 32 * p) mod 2 ^ 32"

section \<open>The emitted code in closed form\<close>

text \<open>
  What \<open>side\<close> and \<open>replaceZero\<close> add to the block and to the pool, written out
  as lists: \<open>n\<close> is \<open>nextId\<close> on entry, \<open>X\<close> and \<open>Y\<close> are the pool values
  picked, \<open>a1\<close> and \<open>a2\<close> the two small random numbers, \<open>RT\<close> the type of the
  replaced operand. These definitions serve the proofs; the lemmas \<open>side_closed\<close> and
  \<open>replaceZero_closed\<close> connect them with the functions above.
\<close>

definition chain :: "nat \<Rightarrow> llvm_value \<Rightarrow> llvm_value \<Rightarrow> llvm_value \<Rightarrow> llvm_value \<Rightarrow> instruction list" where
  "chain n Cast OverflowMask any prime =
     [\<lparr>iid = n, opcode = And, operands = [Cast, OverflowMask], itype = getType Cast\<rparr>,
      \<lparr>iid = n + 1, opcode = Or, operands = [InstValue n (getType Cast), any], itype = getType Cast\<rparr>,
      \<lparr>iid = n + 2, opcode = Mul,
        operands = [InstValue (n + 1) (getType Cast), InstValue (n + 1) (getType Cast)],
        itype = getType Cast\<rparr>,
      \<lparr>iid = n + 3, opcode = Mul, operands = [InstValue (n + 2) (getType Cast), prime],
        itype = getType Cast\<rparr>]"

definition castInsts :: "nat \<Rightarrow> llvm_value \<Rightarrow> llvm_type \<Rightarrow> instruction list" where
  "castInsts n X T =
     (if getType X = T then []
      else [\<lparr>iid = n,
             opcode = (if getScalarSizeInBits (getType X) < getScalarSizeInBits T then ZExt else Trunc),
             operands = [X], itype = T\<rparr>])"

definition castValue :: "nat \<Rightarrow> llvm_value \<Rightarrow> llvm_type \<Rightarrow> llvm_value" where
  "castValue n X T = (if getType X = T then X else InstValue n T)"

definition sideInsts :: "nat \<Rightarrow> llvm_value \<Rightarrow> llvm_type \<Rightarrow> llvm_value \<Rightarrow> llvm_value \<Rightarrow> llvm_value \<Rightarrow> instruction list" where
  "sideInsts n X T OverflowMask any prime =
     castInsts n X T @ chain (n + length (castInsts n X T)) (castValue n X T) OverflowMask any prime"

definition sideNext :: "nat \<Rightarrow> llvm_value \<Rightarrow> llvm_type \<Rightarrow> nat" where
  "sideNext n X T = n + length (castInsts n X T) + 4"

definition sideRegs :: "nat \<Rightarrow> llvm_value \<Rightarrow> llvm_type \<Rightarrow> llvm_value \<Rightarrow> llvm_value \<Rightarrow> llvm_value \<Rightarrow> llvm_value list" where
  "sideRegs n X T OverflowMask any prime =
     castValue n X T #
     map valueOf (chain (n + length (castInsts n X T)) (castValue n X T) OverflowMask any prime)"

definition zextInsts :: "nat \<Rightarrow> llvm_value \<Rightarrow> llvm_type \<Rightarrow> instruction list" where
  "zextInsts n V T =
     (if getType V = T then [] else [\<lparr>iid = n, opcode = ZExt, operands = [V], itype = T\<rparr>])"

definition synthInsts :: "nat \<Rightarrow> llvm_value \<Rightarrow> llvm_value \<Rightarrow> nat \<Rightarrow> nat \<Rightarrow> llvm_type \<Rightarrow> instruction list" where
  "synthInsts n X Y a1 a2 RT =
     (let T = IntegerTy 32; M = Constant T 7;
          n1 = sideNext n X T; n2 = sideNext n1 Y T
      in sideInsts n X T M (Constant T a1) (Constant T 431) @
         sideInsts n1 Y T M (Constant T a2) (Constant T 277) @
         \<lparr>iid = n2, opcode = ICmpEQ, operands = [InstValue (n1 - 1) T, InstValue (n2 - 1) T],
           itype = IntegerTy 1\<rparr> #
         zextInsts (Suc n2) (InstValue n2 (IntegerTy 1)) RT)"

definition synthValue :: "nat \<Rightarrow> llvm_value \<Rightarrow> llvm_value \<Rightarrow> llvm_type \<Rightarrow> llvm_value" where
  "synthValue n X Y RT =
     (let T = IntegerTy 32; n2 = sideNext (sideNext n X T) Y T
      in castValue (Suc n2) (InstValue n2 (IntegerTy 1)) RT)"

definition synthRegs :: "nat \<Rightarrow> llvm_value \<Rightarrow> llvm_value \<Rightarrow> nat \<Rightarrow> nat \<Rightarrow> llvm_type \<Rightarrow> llvm_value list" where
  "synthRegs n X Y a1 a2 RT =
     (let T = IntegerTy 32; M = Constant T 7;
          n1 = sideNext n X T; n2 = sideNext n1 Y T
      in sideRegs n X T M (Constant T a1) (Constant T 431) @
         sideRegs n1 Y T M (Constant T a2) (Constant T 277) @
         InstValue n2 (IntegerTy 1) #
         (if isIntegerTy RT then [synthValue n X Y RT] else []))"

definition synthNext :: "nat \<Rightarrow> llvm_value \<Rightarrow> llvm_value \<Rightarrow> llvm_type \<Rightarrow> nat" where
  "synthNext n X Y RT =
     (let T = IntegerTy 32; n2 = sideNext (sideNext n X T) Y T
      in Suc n2 + length (zextInsts (Suc n2) (InstValue n2 (IntegerTy 1)) RT))"

section \<open>How the block changes\<close>

text \<open>
  \<open>rewritten I I'\<close>: \<open>I'\<close> is the instruction \<open>I\<close> with some of its eligible zero
  operands replaced by values that are not constants and have the type of the operand
  they replace; identity, opcode, result type and operand count are those of \<open>I\<close>.
  \<open>assemble\<close> puts a block together from the visited instructions, each with the
  instructions created in front of it.
\<close>

definition rewritten :: "instruction \<Rightarrow> instruction \<Rightarrow> bool" where
  "rewritten I I' \<longleftrightarrow>
     iid I' = iid I \<and> opcode I' = opcode I \<and> itype I' = itype I \<and>
     length (operands I') = length (operands I) \<and>
     (\<forall>j<length (operands I).
        operands I' ! j = operands I ! j \<or>
        (isValidCandidateOperand (operands I ! j) = Some (operands I ! j) \<and>
         \<not> isConstant (operands I' ! j) \<and>
         getType (operands I' ! j) = getType (operands I ! j)))"

definition assemble :: "(instruction list \<times> instruction) list \<Rightarrow> instruction list" where
  "assemble chunks = concat (map (\<lambda>(new, I). new @ [I]) chunks)"

text \<open>
  What the instruction loop does with a visited instruction: it now stands in front of the
  next one, and it is registered (line 55).
\<close>

definition place :: "instruction \<Rightarrow> pass_state \<Rightarrow> pass_state" where
  "place I st = registerInteger (valueOf I) (st\<lparr>preceding := preceding st @ [I]\<rparr>)"

section \<open>Pool invariants\<close>

text \<open>
  \<open>poolDefined\<close>: every pool value is the result of an instruction standing in front of
  the visited instruction. \<open>poolExact k\<close>: the pool holds exactly the integer-typed results
  of the instructions that came to stand there from position \<open>k\<close> on (the visited
  instructions of the block and the synthesized ones).
\<close>

definition poolDefined :: "pass_state \<Rightarrow> bool" where
  "poolDefined st \<longleftrightarrow> set (IntegerVect st) \<subseteq> valueOf ` set (preceding st)"


text \<open>
  Where the builder's casts succeed. \<open>castable RT\<close>: the last cast of
  \<open>replaceZero\<close>, from the type \<open>i1\<close> of the comparison to the type \<open>RT\<close> of the
  replaced operand, is the identity or a valid \<open>zext\<close>; that is, \<open>RT\<close> is an integer
  type (of width at least one, as all integer types of LLVM are). \<open>castableZeros I\<close>: every
  eligible zero operand of \<open>I\<close> has such a type. \<open>integerPool\<close>: every pool value
  has an integer type.
\<close>

definition castable :: "llvm_type \<Rightarrow> bool" where
  "castable RT \<longleftrightarrow> RT = IntegerTy 1 \<or> castIsValid ZExt (IntegerTy 1) RT"

definition castableZeros :: "instruction \<Rightarrow> bool" where
  "castableZeros I \<longleftrightarrow>
     (\<forall>V\<in>set (operands I). isValidCandidateOperand V = Some V \<longrightarrow> castable (getType V))"

definition integerPool :: "pass_state \<Rightarrow> bool" where
  "integerPool st \<longleftrightarrow> (\<forall>v\<in>set (IntegerVect st). isIntegerTy (getType v))"

text \<open>The state in which the instruction loop of \<open>runOnBasicBlock\<close> starts.\<close>

definition entryState :: "pass_state \<Rightarrow> instruction list \<Rightarrow> pass_state" where
  "entryState st BB = st\<lparr>IntegerVect := [], preceding := take (getFirstInsertionPt BB) BB\<rparr>"

section \<open>Example inputs\<close>

text \<open>
  A state in the middle of a block: two instructions \<open>%0 = ... : i8\<close> and
  \<open>%1 = ... : i32\<close> stand in front of the visited instruction and are in the pool; the
  engine is about to produce \<open>0, 1, 2, ...\<close>. The visited instruction is
  \<open>%9 = add i8 %0, 0\<close>.
\<close>

definition example_state :: pass_state where
  "example_state =
     \<lparr>IntegerVect = [InstValue 0 (IntegerTy 8), InstValue 1 (IntegerTy 32)],
      Generator = (\<lambda>n. n),
      preceding = [\<lparr>iid = 0, opcode = OtherOp 0, operands = [], itype = IntegerTy 8\<rparr>,
                   \<lparr>iid = 1, opcode = OtherOp 0, operands = [], itype = IntegerTy 32\<rparr>],
      nextId = 10\<rparr>"

definition example_add :: instruction where
  "example_add =
     \<lparr>iid = 9, opcode = OtherOp 1,
      operands = [InstValue 0 (IntegerTy 8), Constant (IntegerTy 8) 0],
      itype = IntegerTy 8\<rparr>"

text \<open>
  A block and a pass object at the start of a run. The block is
  \<^verbatim>\<open>%0 = phi i32 [0, ...], [%100, ...]\<close>, \<^verbatim>\<open>%1 = load i32, i32* %101\<close>,
  \<^verbatim>\<open>%2 = add i32 %1, 0\<close>, \<^verbatim>\<open>call void %102(i32 0)\<close>.
\<close>

definition example_block :: "instruction list" where
  "example_block =
     [\<lparr>iid = 0, opcode = PHI,
       operands = [Constant (IntegerTy 32) 0, OtherValue 100 (IntegerTy 32)], itype = IntegerTy 32\<rparr>,
      \<lparr>iid = 1, opcode = OtherOp 0, operands = [OtherValue 101 PointerTy], itype = IntegerTy 32\<rparr>,
      \<lparr>iid = 2, opcode = OtherOp 1,
       operands = [InstValue 1 (IntegerTy 32), Constant (IntegerTy 32) 0], itype = IntegerTy 32\<rparr>,
      \<lparr>iid = 3, opcode = Call,
       operands = [Constant (IntegerTy 32) 0, OtherValue 102 PointerTy], itype = OtherTy\<rparr>]"

definition example_pass :: pass_state where
  "example_pass = \<lparr>IntegerVect = [], Generator = (\<lambda>n. n), preceding = [], nextId = 4\<rparr>"

text \<open>
  The block after the run: the zero of the \<open>add\<close> is replaced by \<open>%13\<close>, computed
  by ten new instructions from \<open>%1\<close> (picked for both sides) and the numbers \<open>4\<close>
  and \<open>5\<close>; the \<open>phi\<close> and the \<open>call\<close> keep their zero.
\<close>

definition example_output :: "instruction list" where
  "example_output =
     [\<lparr>iid = 0, opcode = PHI,
       operands = [Constant (IntegerTy 32) 0, OtherValue 100 (IntegerTy 32)], itype = IntegerTy 32\<rparr>,
      \<lparr>iid = 1, opcode = OtherOp 0, operands = [OtherValue 101 PointerTy], itype = IntegerTy 32\<rparr>,
      \<lparr>iid = 4, opcode = And,
       operands = [InstValue 1 (IntegerTy 32), Constant (IntegerTy 32) 7], itype = IntegerTy 32\<rparr>,
      \<lparr>iid = 5, opcode = Or,
       operands = [InstValue 4 (IntegerTy 32), Constant (IntegerTy 32) 4], itype = IntegerTy 32\<rparr>,
      \<lparr>iid = 6, opcode = Mul,
       operands = [InstValue 5 (IntegerTy 32), InstValue 5 (IntegerTy 32)], itype = IntegerTy 32\<rparr>,
      \<lparr>iid = 7, opcode = Mul,
       operands = [InstValue 6 (IntegerTy 32), Constant (IntegerTy 32) 431], itype = IntegerTy 32\<rparr>,
      \<lparr>iid = 8, opcode = And,
       operands = [InstValue 1 (IntegerTy 32), Constant (IntegerTy 32) 7], itype = IntegerTy 32\<rparr>,
      \<lparr>iid = 9, opcode = Or,
       operands = [InstValue 8 (IntegerTy 32), Constant (IntegerTy 32) 5], itype = IntegerTy 32\<rparr>,
      \<lparr>iid = 10, opcode = Mul,
       operands = [InstValue 9 (IntegerTy 32), InstValue 9 (IntegerTy 32)], itype = IntegerTy 32\<rparr>,
      \<lparr>iid = 11, opcode = Mul,
       operands = [InstValue 10 (IntegerTy 32), Constant (IntegerTy 32) 277], itype = IntegerTy 32\<rparr>,
      \<lparr>iid = 12, opcode = ICmpEQ,
       operands = [InstValue 7 (IntegerTy 32), InstValue 11 (IntegerTy 32)], itype = IntegerTy 1\<rparr>,
      \<lparr>iid = 13, opcode = ZExt, operands = [InstValue 12 (IntegerTy 1)], itype = IntegerTy 32\<rparr>,
      \<lparr>iid = 2, opcode = OtherOp 1,
       operands = [InstValue 1 (IntegerTy 32), InstValue 13 (IntegerTy 32)], itype = IntegerTy 32\<rparr>,
      \<lparr>iid = 3, opcode = Call,
       operands = [Constant (IntegerTy 32) 0, OtherValue 102 PointerTy], itype = OtherTy\<rparr>]"

text \<open>
  An instruction with a zero operand that is neither of an integer, nor of a pointer, nor of a
  floating-point type: \<^verbatim>\<open>%9 = add <4 x i32> %100, zeroinitializer\<close>.
\<close>

definition example_vector :: instruction where
  "example_vector =
     \<lparr>iid = 9, opcode = OtherOp 1,
      operands = [OtherValue 100 OtherTy, Constant OtherTy 0], itype = OtherTy\<rparr>"

text \<open>
  A block with that instruction behind an instruction of integer type:
  \<^verbatim>\<open>%1 = load i32, i32* %101\<close>, \<^verbatim>\<open>%9 = add <4 x i32> %100, zeroinitializer\<close>.
  A run on it is started below from \<open>example_state\<close>, the pass object as an earlier
  block has left it (the run clears the pool).
\<close>

definition example_vector_block :: "instruction list" where
  "example_vector_block =
     [\<lparr>iid = 1, opcode = OtherOp 0, operands = [OtherValue 101 PointerTy], itype = IntegerTy 32\<rparr>,
      example_vector]"

section \<open>Closed forms of the builder sequences\<close>

lemma cast_closed:
  "isIntegerTy (getType X) \<Longrightarrow> CreateZExtOrTrunc X (IntegerTy w) st =
     Inr (castValue (nextId st) X (IntegerTy w),
      st\<lparr>preceding := preceding st @ castInsts (nextId st) X (IntegerTy w),
         nextId := nextId st + length (castInsts (nextId st) X (IntegerTy w))\<rparr>)"
  by (cases "getType X")
     (auto simp: CreateZExtOrTrunc_def CreateZExt_def CreateTrunc_def castIsValid_def Insert_def
        castValue_def castInsts_def Let_def)

lemma cast_fails: "\<not> isIntegerTy (getType X) \<Longrightarrow> CreateZExtOrTrunc X T st = Inl InvalidCast"
  by (simp add: CreateZExtOrTrunc_def)

lemma castable_iff: "castable RT \<longleftrightarrow> (\<exists>w\<ge>1. RT = IntegerTy w)"
  by (cases RT) (auto simp: castable_def castIsValid_def)

lemma zext_closed:
  "castable RT \<Longrightarrow> CreateZExt (InstValue n (IntegerTy 1)) RT st =
     Inr (castValue (nextId st) (InstValue n (IntegerTy 1)) RT,
      st\<lparr>preceding := preceding st @ zextInsts (nextId st) (InstValue n (IntegerTy 1)) RT,
         nextId := nextId st + length (zextInsts (nextId st) (InstValue n (IntegerTy 1)) RT)\<rparr>)"
  by (auto simp: castable_def CreateZExt_def Insert_def castValue_def zextInsts_def)

lemma zext_fails:
  "\<not> castable RT \<Longrightarrow> CreateZExt (InstValue n (IntegerTy 1)) RT st = Inl InvalidCast"
  by (auto simp: castable_def CreateZExt_def)

lemma getType_castValue: "getType (castValue n X T) = T"
  by (simp add: castValue_def)

lemma tail_closed:
  "isIntegerTy (getType Cast) \<Longrightarrow>
   (let st2 = registerInteger Cast st1;
          (And', st3) = CreateAnd Cast OverflowMask st2;
          st4 = registerInteger And' st3;
          (Or', st5) = CreateOr And' any st4;
          st6 = registerInteger Or' st5;
          (Square, st7) = CreateMul Or' Or' st6;
          st8 = registerInteger Square st7;
          (Tot, st9) = CreateMul Square prime st8;
          st10 = registerInteger Tot st9
      in Inr (Tot, st10)) =
   Inr (InstValue (nextId st1 + 3) (getType Cast),
    st1\<lparr>IntegerVect := IntegerVect st1 @ Cast # map valueOf (chain (nextId st1) Cast OverflowMask any prime),
        preceding := preceding st1 @ chain (nextId st1) Cast OverflowMask any prime,
        nextId := nextId st1 + 4\<rparr>)"
  by (simp add: registerInteger_def CreateAnd_def CreateOr_def CreateMul_def Insert_def chain_def valueOf_def Let_def)

lemma side_closed:
  assumes "isIntegerTy (getType X)"
  shows "side X (IntegerTy w) OverflowMask any prime st =
     Inr (InstValue (sideNext (nextId st) X (IntegerTy w) - 1) (IntegerTy w),
      st\<lparr>IntegerVect := IntegerVect st @ sideRegs (nextId st) X (IntegerTy w) OverflowMask any prime,
         preceding := preceding st @ sideInsts (nextId st) X (IntegerTy w) OverflowMask any prime,
         nextId := sideNext (nextId st) X (IntegerTy w)\<rparr>)"
  unfolding side_def cast_closed [OF assms] sideInsts_def sideRegs_def sideNext_def
  apply (simp only: sum.case split_conv)
  apply (subst tail_closed)
   apply (simp add: getType_castValue)
  apply (simp add: getType_castValue)
  done

lemma side_fails:
  "\<not> isIntegerTy (getType X) \<Longrightarrow> side X T OverflowMask any prime st = Inl InvalidCast"
  by (simp add: side_def cast_fails)

lemma length_sideInsts: "length (sideInsts n X T M a p) + n = sideNext n X T"
  by (simp add: sideInsts_def sideNext_def chain_def)

lemma length_synthInsts: "n + length (synthInsts n X Y a1 a2 RT) = synthNext n X Y RT"
  using length_sideInsts [of n X "IntegerTy 32" "Constant (IntegerTy 32) 7"
      "Constant (IntegerTy 32) a1" "Constant (IntegerTy 32) 431"]
    length_sideInsts [of "sideNext n X (IntegerTy 32)" Y "IntegerTy 32" "Constant (IntegerTy 32) 7"
      "Constant (IntegerTy 32) a2" "Constant (IntegerTy 32) 277"]
  by (simp add: synthInsts_def synthNext_def Let_def)

lemma replaceZero_empty: "IntegerVect st = [] \<Longrightarrow> replaceZero st Inst C = Inr (None, st)"
  by (simp add: replaceZero_def)

lemma replaceZero_closed:
  assumes "IntegerVect st \<noteq> []"
    and "isIntegerTy (getType (IntegerVect st ! (Generator st 0 mod length (IntegerVect st))))"
    and "isIntegerTy (getType (IntegerVect st ! (Generator st 1 mod length (IntegerVect st))))"
    and "castable (getType C)"
  shows "replaceZero st Inst C =
     (let g = Generator st; pool = IntegerVect st; n = nextId st;
          X = pool ! (g 0 mod length pool); Y = pool ! (g 1 mod length pool);
          a1 = 2 + g 2 mod 10; a2 = 2 + g 3 mod 10
      in Inr (Some (synthValue n X Y (getType C)),
           st\<lparr>IntegerVect := pool @ synthRegs n X Y a1 a2 (getType C),
              Generator := (\<lambda>k. g (k + 4)),
              preceding := preceding st @ synthInsts n X Y a1 a2 (getType C),
              nextId := synthNext n X Y (getType C)\<rparr>))"
proof -
  have pos: "0 < length (IntegerVect st)" using assms(1) by simp
  have small: "\<And>r::nat. (1 + (1 + r mod 10)) mod 4294967296 = 2 + r mod 10"
    by simp
  have idx: "\<And>r m. r mod length (IntegerVect st) < length (IntegerVect st) + m"
    using pos by (simp add: trans_less_add1)
  have four: "\<And>k::nat. k + 4 = Suc (Suc (Suc (Suc k)))" by simp
  have g2: "Generator st (Suc (Suc 0)) = Generator st 2"
    and g3: "Generator st (Suc (Suc (Suc 0))) = Generator st 3"
    by (simp_all add: numeral_2_eq_2 numeral_3_eq_3)
  have int: "isIntegerTy (getType C)" using assms(4) by (auto simp: castable_iff)
  show ?thesis
    using pos assms(2,3) int
    by (simp add: replaceZero_def uniform_int_distribution_def at_def ConstantInt_get_def
      side_closed CreateICmpEQ_def zext_closed [OF assms(4), unfolded One_nat_def] registerInteger_def Insert_def Let_def
      nth_append small idx four synthInsts_def synthRegs_def synthValue_def getType_castValue
      synthNext_def valueOf_def g2 g3)
qed

lemma replaceZero_fails:
  assumes "IntegerVect st \<noteq> []"
    and "\<not> (isIntegerTy (getType (IntegerVect st ! (Generator st 0 mod length (IntegerVect st)))) \<and>
            isIntegerTy (getType (IntegerVect st ! (Generator st 1 mod length (IntegerVect st)))) \<and>
            castable (getType C))"
  shows "replaceZero st Inst C = Inl InvalidCast"
proof -
  let ?X = "IntegerVect st ! (Generator st 0 mod length (IntegerVect st))"
  let ?Y = "IntegerVect st ! (Generator st 1 mod length (IntegerVect st))"
  have pos: "0 < length (IntegerVect st)" using assms(1) by simp
  have idx: "\<And>r m. r mod length (IntegerVect st) < length (IntegerVect st) + m"
    using pos by (simp add: trans_less_add1)
  show ?thesis
  proof (cases "isIntegerTy (getType ?X)")
    case False
    then show ?thesis
      using pos
      by (simp add: replaceZero_def uniform_int_distribution_def at_def side_fails Let_def)
  next
    case X: True
    show ?thesis
    proof (cases "isIntegerTy (getType ?Y)")
      case False
      then show ?thesis
        using pos X
        by (simp add: replaceZero_def uniform_int_distribution_def at_def side_closed side_fails
            Let_def nth_append idx)
    next
      case True
      then have "\<not> castable (getType C)" using X assms(2) by simp
      then show ?thesis
        using pos X True
        by (simp add: replaceZero_def uniform_int_distribution_def at_def side_closed
            CreateICmpEQ_def Insert_def zext_fails [unfolded One_nat_def] registerInteger_def Let_def
            nth_append idx)
    qed
  qed
qed

lemma exec_sideInsts:
  "\<exists>env' x. execInsts env (sideInsts n X (IntegerTy 32) (Constant (IntegerTy 32) m) (Constant (IntegerTy 32) a) (Constant (IntegerTy 32) p)) = Some env'
     \<and> env' (sideNext n X (IntegerTy 32) - 1) = sideValue x m a p
     \<and> (\<forall>k<n. env' k = env k)"
  by (cases "getType X = IntegerTy 32")
     (auto simp add: sideInsts_def castInsts_def chain_def castValue_def sideNext_def
        execInst_def evalOp_def sideValue_def)

lemma masked_bounds:
  fixes x a :: nat
  assumes "2 \<le> a" "a \<le> 11"
  shows "0 < (x AND 7) OR a" and "(x AND 7) OR a \<le> 15"
proof -
  have "(x AND 7) OR a \<noteq> 0" using assms by (simp add: or_eq_0_iff)
  then show "0 < (x AND 7) OR a" by simp
  have eq: "int ((x AND 7) OR a) = (int x AND 7) OR int a"
    by (simp add: of_nat_or_eq of_nat_and_eq)
  have "int x AND 7 \<le> 7" by (rule AND_upper2) simp
  moreover have "0 \<le> int x AND 7" by simp
  ultimately have "(int x AND 7) OR int a < 2 ^ 4"
    using assms by (intro OR_upper) simp_all
  with eq show "(x AND 7) OR a \<le> 15" by simp
qed

lemma coprime_gap:
  fixes s t :: nat
  assumes eq: "431 * s = 277 * t" and pos: "1 \<le> s" and le: "s \<le> 225"
  shows False
proof -
  have "s + 277 * (14 * s) = 9 * (431 * s)" by simp
  also have "\<dots> = 277 * (9 * t)" by (simp add: eq)
  finally have "s + 277 * (14 * s) = 277 * (9 * t)" .
  then have "277 dvd s + 277 * (14 * s)" by (simp only: dvd_triv_left)
  then have "277 dvd s" by (simp only: dvd_add_times_triv_right_iff mult.commute [of 277])
  then have "277 \<le> s" using pos by (intro dvd_imp_le) simp_all
  with le show False by simp
qed

lemma sq_le: "(v::nat) \<le> 15 \<Longrightarrow> v * v \<le> 225"
  using mult_le_mono [of v 15 v 15] by simp

lemma sideValue_no_collision:
  assumes "2 \<le> a1" "a1 \<le> 11" "2 \<le> a2" "a2 \<le> 11"
  shows "sideValue x 7 a1 431 \<noteq> sideValue y 7 a2 277"
proof
  define v where "v = (x AND 7) OR a1"
  define u where "u = (y AND 7) OR a2"
  have v: "0 < v" "v \<le> 15" and u: "u \<le> 15"
    using masked_bounds [of a1 x] masked_bounds [of a2 y] assms by (simp_all add: v_def u_def)
  have vv: "v * v \<le> 225" and uu: "u * u \<le> 225"
    using v u by (simp_all add: sq_le)
  have "sideValue x 7 a1 431 = 431 * (v * v)" "sideValue y 7 a2 277 = 277 * (u * u)"
    using vv uu by (simp_all add: sideValue_def v_def [symmetric] u_def [symmetric] mult.commute)
  moreover assume "sideValue x 7 a1 431 = sideValue y 7 a2 277"
  ultimately have "431 * (v * v) = 277 * (u * u)" by simp
  moreover have "1 \<le> v * v" using v by simp
  ultimately show False using vv by (rule coprime_gap)
qed


lemma execInsts_append:
  "execInsts env (xs @ ys) = (case execInsts env xs of None \<Rightarrow> None | Some env' \<Rightarrow> execInsts env' ys)"
  by (induction xs arbitrary: env) (simp_all split: option.splits)

lemma sideNext_pos: "0 < sideNext n X T" and sideNext_gt: "n < sideNext n X T"
  by (simp_all add: sideNext_def)

lemma exec_synthInsts:
  assumes a1: "2 \<le> a1" "a1 \<le> 11" and a2: "2 \<le> a2" "a2 \<le> 11"
  shows "\<exists>env'. execInsts env (synthInsts n X Y a1 a2 (IntegerTy w)) = Some env' \<and>
           evalValue env' (synthValue n X Y (IntegerTy w)) = 0"
proof -
  let ?T = "IntegerTy 32"
  let ?n1 = "sideNext n X ?T"
  let ?n2 = "sideNext ?n1 Y ?T"
  obtain env1 x where L:
    "execInsts env (sideInsts n X ?T (Constant ?T 7) (Constant ?T a1) (Constant ?T 431)) = Some env1"
    "env1 (?n1 - 1) = sideValue x 7 a1 431"
    using exec_sideInsts [of env n X 7 a1 431] by blast
  obtain env2 y where R:
    "execInsts env1 (sideInsts ?n1 Y ?T (Constant ?T 7) (Constant ?T a2) (Constant ?T 277)) = Some env2"
    "env2 (?n2 - 1) = sideValue y 7 a2 277" "\<forall>k<?n1. env2 k = env1 k"
    using exec_sideInsts [of env1 ?n1 Y 7 a2 277] by blast
  have "env2 (?n1 - 1) = env1 (?n1 - 1)"
    using R(3) sideNext_pos [of n X ?T] by simp
  then have ne: "env2 (?n1 - 1) \<noteq> env2 (?n2 - 1)"
    using L(2) R(2) sideValue_no_collision [OF a1 a2, of x y] by simp
  show ?thesis
    using L(1) R(1) ne
    by (simp add: synthInsts_def synthValue_def Let_def execInsts_append zextInsts_def castValue_def
          execInst_def evalOp_def)
qed

lemma uniform_int_distribution_range:
  assumes "a \<le> b"
  shows "a \<le> fst (uniform_int_distribution a b g) \<and> fst (uniform_int_distribution a b g) \<le> b"
proof -
  have "g 0 mod Suc (b - a) < Suc (b - a)" by (rule mod_less_divisor) simp
  then have "g 0 mod Suc (b - a) \<le> b - a" by simp
  then have "a + g 0 mod Suc (b - a) \<le> a + (b - a)" by (rule add_left_mono)
  also have "\<dots> = b" using assms by simp
  finally show ?thesis by (simp add: uniform_int_distribution_def)
qed

lemma replaceZero_nonempty:
  assumes "IntegerVect st \<noteq> []" "integerPool st" "castable (getType C)"
  shows "\<exists>v st'. replaceZero st Inst C = Inr (Some v, st')"
proof -
  have "Generator st k mod length (IntegerVect st) < length (IntegerVect st)" for k
    using assms(1) by simp
  then have "isIntegerTy (getType (IntegerVect st ! (Generator st k mod length (IntegerVect st))))" for k
    using assms(2) by (simp add: integerPool_def)
  then show ?thesis
    using replaceZero_closed [OF assms(1) _ _ assms(3), where Inst = Inst] by (simp add: Let_def)
qed

section \<open>What the synthesizer adds to the block and to the pool\<close>

lemma sideInsts_ids:
  "J \<in> set (sideInsts n X T M a p) \<Longrightarrow> n \<le> iid J \<and> iid J < sideNext n X T"
  by (auto simp: sideInsts_def castInsts_def chain_def sideNext_def split: if_splits)


lemma sideRegs_type: "v \<in> set (sideRegs n X T M a p) \<Longrightarrow> getType v = T"
  by (auto simp: sideRegs_def chain_def castValue_def valueOf_def split: if_splits)

lemma sideRegs_subset:
  "set (sideRegs n X T M a p) \<subseteq> insert X (valueOf ` set (sideInsts n X T M a p))"
  by (auto simp: sideRegs_def sideInsts_def castInsts_def chain_def castValue_def valueOf_def)


lemma synthInsts_nonempty: "synthInsts n X Y a1 a2 RT \<noteq> []"
  by (simp add: synthInsts_def Let_def sideInsts_def chain_def)

lemma synthNext_gt: "n < synthNext n X Y RT"
  using sideNext_gt [of n X "IntegerTy 32"] sideNext_gt [of "sideNext n X (IntegerTy 32)" Y "IntegerTy 32"]
  by (simp add: synthNext_def Let_def)

lemma synthInsts_ids:
  assumes "J \<in> set (synthInsts n X Y a1 a2 RT)"
  shows "n \<le> iid J \<and> iid J < synthNext n X Y RT"
proof -
  let ?T = "IntegerTy 32"
  let ?n1 = "sideNext n X ?T"
  let ?n2 = "sideNext ?n1 Y ?T"
  have n1: "n < ?n1" and n2: "?n1 < ?n2" by (rule sideNext_gt)+
  from assms consider
      (L) "J \<in> set (sideInsts n X ?T (Constant ?T 7) (Constant ?T a1) (Constant ?T 431))"
    | (R) "J \<in> set (sideInsts ?n1 Y ?T (Constant ?T 7) (Constant ?T a2) (Constant ?T 277))"
    | (C) "iid J = ?n2"
    | (Z) "iid J = Suc ?n2" "zextInsts (Suc ?n2) (InstValue ?n2 (IntegerTy 1)) RT \<noteq> []"
    by (auto simp: synthInsts_def Let_def zextInsts_def split: if_splits)
  then show ?thesis
  proof cases
    case L
    from sideInsts_ids [OF L] n1 n2 show ?thesis by (simp add: synthNext_def Let_def)
  next
    case R
    from sideInsts_ids [OF R] n1 n2 show ?thesis by (simp add: synthNext_def Let_def)
  next
    case C
    with n1 n2 show ?thesis by (simp add: synthNext_def Let_def)
  next
    case Z
    with n1 n2 show ?thesis by (cases "zextInsts (Suc ?n2) (InstValue ?n2 (IntegerTy 1)) RT") (simp_all add: synthNext_def Let_def)
  qed
qed

lemma synthRegs_type: "v \<in> set (synthRegs n X Y a1 a2 RT) \<Longrightarrow> isIntegerTy (getType v)"
  by (auto simp: synthRegs_def Let_def synthValue_def castValue_def dest: sideRegs_type split: if_splits)

lemma synthRegs_subset:
  "set (synthRegs n X Y a1 a2 RT) \<subseteq> insert X (insert Y (valueOf ` set (synthInsts n X Y a1 a2 RT)))"
  using sideRegs_subset [of n X "IntegerTy 32" "Constant (IntegerTy 32) 7" "Constant (IntegerTy 32) a1" "Constant (IntegerTy 32) 431"]
    sideRegs_subset [of "sideNext n X (IntegerTy 32)" Y "IntegerTy 32" "Constant (IntegerTy 32) 7" "Constant (IntegerTy 32) a2" "Constant (IntegerTy 32) 277"]
  by (auto simp: synthRegs_def synthInsts_def Let_def synthValue_def castValue_def zextInsts_def valueOf_def)


lemma synthValue_type: "getType (synthValue n X Y RT) = RT"
  by (simp add: synthValue_def Let_def getType_castValue)

lemma synthValue_emitted: "synthValue n X Y RT \<in> valueOf ` set (synthInsts n X Y a1 a2 RT)"
  by (auto simp: synthInsts_def Let_def synthValue_def castValue_def zextInsts_def valueOf_def image_iff)

lemma synthValue_not_constant: "\<not> isConstant (synthValue n X Y RT)"
  by (simp add: synthValue_def Let_def castValue_def)

section \<open>The operand loop\<close>

lemma replaceZero_cases:
  obtains (empty) "IntegerVect st = []" "replaceZero st Inst C = Inr (None, st)"
  | (synth) X Y a1 a2 g where
      "X \<in> set (IntegerVect st)" "Y \<in> set (IntegerVect st)"
      "2 \<le> a1" "a1 \<le> 11" "2 \<le> a2" "a2 \<le> 11"
      "replaceZero st Inst C =
         Inr (Some (synthValue (nextId st) X Y (getType C)),
           st\<lparr>IntegerVect := IntegerVect st @ synthRegs (nextId st) X Y a1 a2 (getType C),
              Generator := g,
              preceding := preceding st @ synthInsts (nextId st) X Y a1 a2 (getType C),
              nextId := synthNext (nextId st) X Y (getType C)\<rparr>)"
      "isIntegerTy (getType X)" "isIntegerTy (getType Y)" "castable (getType C)"
  | (invalid) "IntegerVect st \<noteq> []" "replaceZero st Inst C = Inl InvalidCast"
proof (cases "IntegerVect st = []")
  case True
  then show ?thesis using empty replaceZero_empty by blast
next
  case False
  let ?g = "Generator st" and ?pool = "IntegerVect st"
  let ?X = "?pool ! (?g 0 mod length ?pool)" and ?Y = "?pool ! (?g 1 mod length ?pool)"
  have pos: "0 < length ?pool" using False by simp
  show ?thesis
  proof (cases "isIntegerTy (getType ?X) \<and> isIntegerTy (getType ?Y) \<and> castable (getType C)")
    case ok: True
    show ?thesis
    proof (rule synth)
      show "?X \<in> set ?pool" using pos by simp
      show "?Y \<in> set ?pool" using pos by simp
      show "2 \<le> 2 + ?g 2 mod 10" by simp
      show "2 \<le> 2 + ?g 3 mod 10" by simp
      have "?g 2 mod 10 < 10" "?g 3 mod 10 < 10" by simp_all
      then show "2 + ?g 2 mod 10 \<le> 11" "2 + ?g 3 mod 10 \<le> 11" by simp_all
      show "isIntegerTy (getType ?X)" "isIntegerTy (getType ?Y)" "castable (getType C)"
        using ok by simp_all
      then show "replaceZero st Inst C =
           Inr (Some (synthValue (nextId st) ?X ?Y (getType C)),
             st\<lparr>IntegerVect := IntegerVect st @ synthRegs (nextId st) ?X ?Y (2 + ?g 2 mod 10) (2 + ?g 3 mod 10) (getType C),
                Generator := (\<lambda>k. ?g (k + 4)),
                preceding := preceding st @ synthInsts (nextId st) ?X ?Y (2 + ?g 2 mod 10) (2 + ?g 3 mod 10) (getType C),
                nextId := synthNext (nextId st) ?X ?Y (getType C)\<rparr>)"
        using replaceZero_closed [OF False, where Inst = Inst and C = C] by (simp add: Let_def)
    qed
  next
    case False
    with \<open>IntegerVect st \<noteq> []\<close> have "replaceZero st Inst C = Inl InvalidCast"
      by (rule replaceZero_fails)
    with \<open>IntegerVect st \<noteq> []\<close> show ?thesis by (rule invalid)
  qed
qed

lemma replaceZero_not_OutOfRange: "replaceZero st Inst C \<noteq> Inl OutOfRange"
  by (rule replaceZero_cases [where st = st and Inst = Inst and C = C]) simp_all

lemma replaceZero_None: "replaceZero st Inst C = Inr (None, st') \<Longrightarrow> st' = st \<and> IntegerVect st = []"
  by (rule replaceZero_cases [where st = st and Inst = Inst and C = C]) simp_all

lemma operandLoop_Inr_step:
  assumes "operandLoop st I (i # idxs) m = Inr res"
    and "isValidCandidateOperand (getOperand I i) = Some C"
  shows "\<exists>r s1. replaceZero st I C = Inr (r, s1)"
  using assms by (cases "replaceZero st I C") auto

lemma operandLoop_rel:
  assumes run: "operandLoop st I idxs m = Inr (st', I', m')"
    and refl: "\<And>s. R s s"
    and trans: "\<And>a b c. R a b \<Longrightarrow> R b c \<Longrightarrow> R a c"
    and step: "\<And>s J C r s'. replaceZero s J C = Inr (r, s') \<Longrightarrow> R s s'"
  shows "R st st'"
  using run
proof (induction idxs arbitrary: st I m)
  case Nil
  then show ?case using refl by simp
next
  case (Cons i idxs)
  show ?case
  proof (cases "isValidCandidateOperand (getOperand I i)")
    case None
    then show ?thesis using Cons by simp
  next
    case (Some C)
    obtain r s1 where rz: "replaceZero st I C = Inr (r, s1)"
      using operandLoop_Inr_step [OF Cons.prems Some] by blast
    have "R st s1" using rz by (rule step)
    moreover have "R s1 st'"
      using Cons.prems Some rz Cons.IH by (cases r) auto
    ultimately show ?thesis by (rule trans)
  qed
qed


lemma replaceZero_preceding:
  "replaceZero s J C = Inr (r, s') \<Longrightarrow> prefix (preceding s) (preceding s')"
  by (rule replaceZero_cases [where st = s and Inst = J and C = C]) auto

lemma replaceZero_pool:
  "replaceZero s J C = Inr (r, s') \<Longrightarrow> prefix (IntegerVect s) (IntegerVect s')"
  by (rule replaceZero_cases [where st = s and Inst = J and C = C]) auto

lemma replaceZero_nextId: "replaceZero s J C = Inr (r, s') \<Longrightarrow> nextId s \<le> nextId s'"
  using synthNext_gt
  by (rule_tac replaceZero_cases [where st = s and Inst = J and C = C]) (auto simp: less_imp_le)

lemma replaceZero_Some:
  assumes "replaceZero s J C = Inr (Some v, s')"
  shows "length (preceding s) < length (preceding s') \<and> \<not> isConstant v \<and> getType v = getType C"
  using assms synthInsts_nonempty
  by (rule_tac replaceZero_cases [where st = s and Inst = J and C = C])
     (auto simp: synthValue_not_constant synthValue_type)

lemma operandLoop_preceding:
  "operandLoop st I idxs m = Inr (st', I', m') \<Longrightarrow> prefix (preceding st) (preceding st')"
  by (erule operandLoop_rel) (auto intro: replaceZero_preceding)

lemma operandLoop_pool:
  "operandLoop st I idxs m = Inr (st', I', m') \<Longrightarrow> prefix (IntegerVect st) (IntegerVect st')"
  by (erule operandLoop_rel) (auto intro: replaceZero_pool)

lemma operandLoop_nextId:
  "operandLoop st I idxs m = Inr (st', I', m') \<Longrightarrow> nextId st \<le> nextId st'"
  by (erule operandLoop_rel) (auto intro: replaceZero_nextId)

lemma rewritten_refl: "rewritten I I"
  by (simp add: rewritten_def)

lemma candidate_is_constant: "isValidCandidateOperand V = Some C \<Longrightarrow> C = V \<and> isConstant V"
  by (auto simp: isValidCandidateOperand_def split: if_splits)

lemma rewritten_trans:
  assumes "rewritten I I1" "rewritten I1 I2"
  shows "rewritten I I2"
  unfolding rewritten_def
proof (intro conjI allI impI)
  fix j assume j: "j < length (operands I)"
  then have j1: "j < length (operands I1)" using assms(1) by (simp add: rewritten_def)
  from assms(1) j have a:
    "operands I1 ! j = operands I ! j \<or>
      (isValidCandidateOperand (operands I ! j) = Some (operands I ! j) \<and>
       \<not> isConstant (operands I1 ! j) \<and> getType (operands I1 ! j) = getType (operands I ! j))"
    by (simp add: rewritten_def)
  from assms(2) j1 have b:
    "operands I2 ! j = operands I1 ! j \<or>
      (isValidCandidateOperand (operands I1 ! j) = Some (operands I1 ! j) \<and>
       \<not> isConstant (operands I2 ! j) \<and> getType (operands I2 ! j) = getType (operands I1 ! j))"
    by (simp add: rewritten_def)
  from a b show "operands I2 ! j = operands I ! j \<or>
      (isValidCandidateOperand (operands I ! j) = Some (operands I ! j) \<and>
       \<not> isConstant (operands I2 ! j) \<and> getType (operands I2 ! j) = getType (operands I ! j))"
    using candidate_is_constant by metis
qed (use assms in \<open>simp_all add: rewritten_def\<close>)

lemma rewritten_setOperand:
  assumes "i < length (operands I)" "isValidCandidateOperand (operands I ! i) = Some C"
    "\<not> isConstant v" "getType v = getType C"
  shows "rewritten I (setOperand I i v)"
  using assms candidate_is_constant [OF assms(2)]
  by (auto simp: rewritten_def setOperand_def nth_list_update)

lemma rewritten_keeps_nonconstant:
  "rewritten I1 I2 \<Longrightarrow> i < length (operands I1) \<Longrightarrow> \<not> isConstant (operands I1 ! i) \<Longrightarrow>
     operands I2 ! i = operands I1 ! i"
  using candidate_is_constant by (fastforce simp: rewritten_def)

lemma operandLoop_shape:
  assumes "operandLoop st I idxs m = Inr (st', I', m')" "\<forall>i\<in>set idxs. i < length (operands I)"
  shows "rewritten I I' \<and> m' = (m \<or> I' \<noteq> I) \<and> (I' = I \<longleftrightarrow> preceding st' = preceding st)"
  using assms
proof (induction idxs arbitrary: st I m)
  case Nil
  then show ?case by (simp add: rewritten_refl)
next
  case (Cons i idxs)
  show ?case
  proof (cases "isValidCandidateOperand (getOperand I i)")
    case None
    then have "operandLoop st I idxs m = Inr (st', I', m')" using Cons.prems(1) by simp
    moreover have "\<forall>i\<in>set idxs. i < length (operands I)" using Cons.prems(2) by simp
    ultimately show ?thesis by (rule Cons.IH)
  next
    case (Some C)
    obtain r s1 where rz: "replaceZero st I C = Inr (r, s1)"
      using operandLoop_Inr_step [OF Cons.prems(1) Some] by blast
    show ?thesis
    proof (cases r)
      case None
      then have "s1 = st" using rz replaceZero_None by blast
      then have "operandLoop st I idxs m = Inr (st', I', m')"
        using Cons.prems(1) Some rz None by simp
      moreover have "\<forall>i\<in>set idxs. i < length (operands I)" using Cons.prems(2) by simp
      ultimately show ?thesis by (rule Cons.IH)
    next
      case (Some v)
      let ?I1 = "setOperand I i v"
      have i: "i < length (operands I)" using Cons.prems(2) by simp
      have v: "length (preceding st) < length (preceding s1)" "\<not> isConstant v" "getType v = getType C"
        using replaceZero_Some rz Some by blast+
      have run: "operandLoop s1 ?I1 idxs True = Inr (st', I', m')"
        using Cons.prems(1) \<open>isValidCandidateOperand (getOperand I i) = Some C\<close> rz Some by simp
      have "\<forall>i\<in>set idxs. i < length (operands ?I1)"
        using Cons.prems(2) by (simp add: setOperand_def)
      with Cons.IH [OF run] have IH: "rewritten ?I1 I'" "m' = True" by simp_all
      have r1: "rewritten I ?I1"
        using i \<open>isValidCandidateOperand (getOperand I i) = Some C\<close> v
        by (intro rewritten_setOperand) (simp_all add: getOperand_def)
      have r: "rewritten I I'" using r1 IH(1) by (rule rewritten_trans)
      have "operands I' ! i = operands ?I1 ! i"
        using IH(1) i v(2) by (intro rewritten_keeps_nonconstant) (simp_all add: setOperand_def)
      then have "operands I' ! i = v" using i by (simp add: setOperand_def)
      moreover have "isConstant (operands I ! i)"
        using candidate_is_constant \<open>isValidCandidateOperand (getOperand I i) = Some C\<close>
        by (auto simp: getOperand_def)
      ultimately have ne: "I' \<noteq> I" using v(2) by auto
      have "length (preceding s1) \<le> length (preceding st')"
        using operandLoop_preceding [OF run] by (rule prefix_length_le)
      then have "preceding st' \<noteq> preceding st" using v(1) by auto
      then show ?thesis using r ne IH(2) by simp
    qed
  qed
qed

section \<open>The instruction loop\<close>

lemma instLoop_Inr_step:
  assumes "instLoop st (I # insts) m = Inr res"
  shows "\<exists>s1 I1 m1. visit st I m = Inr (s1, I1, m1)"
  using assms by (cases "visit st I m") auto

lemma visit_invalid: "\<not> isValidCandidateInstruction I \<Longrightarrow> visit st I m = Inr (st, I, m)"
  by (simp add: visit_def)

lemma visit_rel:
  assumes "visit st I m = Inr (st', I', m')"
    and "\<And>s. R s s"
    and "\<And>a b c. R a b \<Longrightarrow> R b c \<Longrightarrow> R a c"
    and "\<And>s J C r s'. replaceZero s J C = Inr (r, s') \<Longrightarrow> R s s'"
  shows "R st st'"
proof (cases "isValidCandidateInstruction I")
  case True
  then have "operandLoop st I [0..<getNumOperands I] m = Inr (st', I', m')"
    using assms(1) by (simp add: visit_def)
  then show ?thesis using assms(2-4) by (rule operandLoop_rel)
next
  case False
  then show ?thesis using assms(1,2) by (simp add: visit_def)
qed

lemma visit_shape:
  assumes "visit st I m = Inr (st', I', m')"
  shows "rewritten I I' \<and> m' = (m \<or> I' \<noteq> I) \<and> (I' = I \<longleftrightarrow> preceding st' = preceding st)"
proof (cases "isValidCandidateInstruction I")
  case True
  then have "operandLoop st I [0..<getNumOperands I] m = Inr (st', I', m')"
    using assms by (simp add: visit_def)
  then show ?thesis by (rule operandLoop_shape) (simp add: getNumOperands_def)
next
  case False
  then show ?thesis using assms by (simp add: visit_def rewritten_refl)
qed

lemma instLoop_Cons:
  "instLoop st (I # rest) m =
     (case visit st I m of Inl e \<Rightarrow> Inl e | Inr (st', I', m') \<Rightarrow> instLoop (place I' st') rest m')"
  by (simp add: place_def split: sum.splits)

lemma place_simps:
  "preceding (place I st) = preceding st @ [I]"
  "nextId (place I st) = nextId st"
  "Generator (place I st) = Generator st"
  "IntegerVect (place I st) = IntegerVect st @ (if isIntegerTy (itype I) then [valueOf I] else [])"
  by (simp_all add: place_def registerInteger_def valueOf_def)

lemma instLoop_append:
  "instLoop st (xs @ ys) m =
     (case instLoop st xs m of Inl e \<Rightarrow> Inl e | Inr (s, m1) \<Rightarrow> instLoop s ys m1)"
proof (induction xs arbitrary: st m)
  case Nil
  then show ?case by simp
next
  case (Cons I xs)
  show ?case
  proof (cases "visit st I m")
    case (Inl e)
    then show ?thesis by simp
  next
    case (Inr res)
    then show ?thesis using Cons.IH by (cases res) simp
  qed
qed

lemma instLoop_rel:
  assumes run: "instLoop st insts m = Inr (st', m')"
    and refl: "\<And>s. R s s"
    and trans: "\<And>a b c. R a b \<Longrightarrow> R b c \<Longrightarrow> R a c"
    and step: "\<And>s J C r s'. replaceZero s J C = Inr (r, s') \<Longrightarrow> R s s'"
    and placed: "\<And>s J. R s (place J s)"
  shows "R st st'"
  using run
proof (induction insts arbitrary: st m)
  case Nil
  then show ?case using refl by simp
next
  case (Cons I insts)
  obtain s1 I1 m1 where v: "visit st I m = Inr (s1, I1, m1)"
    using instLoop_Inr_step [OF Cons.prems] by blast
  then have rest: "instLoop (place I1 s1) insts m1 = Inr (st', m')"
    using Cons.prems by (simp add: place_def)
  have "R st s1" using v refl trans step by (rule visit_rel)
  moreover have "R s1 (place I1 s1)" by (rule placed)
  moreover have "R (place I1 s1) st'" using rest by (rule Cons.IH)
  ultimately show ?case using trans by blast
qed

lemma instLoop_shape:
  assumes "instLoop st insts m = Inr (st', m')"
  shows "\<exists>chunks. preceding st' = preceding st @ assemble chunks \<and>
           list_all2 (\<lambda>I c. rewritten I (snd c) \<and> (snd c = I \<longleftrightarrow> fst c = []) \<and>
                             (\<not> isValidCandidateInstruction I \<longrightarrow> snd c = I)) insts chunks \<and>
           m' = (m \<or> (\<exists>p<length insts. snd (chunks ! p) \<noteq> insts ! p))"
  using assms
proof (induction insts arbitrary: st m)
  case Nil
  then show ?case by (simp add: assemble_def)
next
  case (Cons I insts)
  obtain s1 I1 m1 where v: "visit st I m = Inr (s1, I1, m1)"
    using instLoop_Inr_step [OF Cons.prems] by blast
  then have rest: "instLoop (place I1 s1) insts m1 = Inr (st', m')"
    using Cons.prems by (simp add: place_def)
  from visit_shape [OF v] have sh: "rewritten I I1" "m1 = (m \<or> I1 \<noteq> I)"
    "I1 = I \<longleftrightarrow> preceding s1 = preceding st" by simp_all
  have "prefix (preceding st) (preceding s1)"
    using v by (rule visit_rel) (auto intro: replaceZero_preceding)
  then obtain new where new: "preceding s1 = preceding st @ new" by (auto simp: prefix_def)
  have inv: "\<not> isValidCandidateInstruction I \<longrightarrow> I1 = I"
    using v by (auto simp: visit_def)
  from Cons.IH [OF rest] obtain chunks where ch:
    "preceding st' = preceding (place I1 s1) @ assemble chunks"
    "list_all2 (\<lambda>I c. rewritten I (snd c) \<and> (snd c = I \<longleftrightarrow> fst c = []) \<and>
                             (\<not> isValidCandidateInstruction I \<longrightarrow> snd c = I)) insts chunks"
    "m' = (m1 \<or> (\<exists>p<length insts. snd (chunks ! p) \<noteq> insts ! p))"
    by blast
  let ?chunks = "(new, I1) # chunks"
  have 1: "preceding st' = preceding st @ assemble ?chunks"
    using ch(1) new by (simp add: place_simps assemble_def)
  have 2: "list_all2 (\<lambda>I c. rewritten I (snd c) \<and> (snd c = I \<longleftrightarrow> fst c = []) \<and>
                             (\<not> isValidCandidateInstruction I \<longrightarrow> snd c = I)) (I # insts) ?chunks"
    using ch(2) sh(1,3) new inv by simp
  have "(\<exists>p<length (I # insts). snd (?chunks ! p) \<noteq> (I # insts) ! p) \<longleftrightarrow>
        (I1 \<noteq> I \<or> (\<exists>p<length insts. snd (chunks ! p) \<noteq> insts ! p))"
  proof
    assume "\<exists>p<length (I # insts). snd (?chunks ! p) \<noteq> (I # insts) ! p"
    then obtain p where p: "p < length (I # insts)" "snd (?chunks ! p) \<noteq> (I # insts) ! p"
      by blast
    then show "I1 \<noteq> I \<or> (\<exists>p<length insts. snd (chunks ! p) \<noteq> insts ! p)"
      by (cases p) auto
  next
    assume "I1 \<noteq> I \<or> (\<exists>p<length insts. snd (chunks ! p) \<noteq> insts ! p)"
    then show "\<exists>p<length (I # insts). snd (?chunks ! p) \<noteq> (I # insts) ! p"
    proof
      assume "I1 \<noteq> I"
      then have "0 < length (I # insts) \<and> snd (?chunks ! 0) \<noteq> (I # insts) ! 0" by simp
      then show ?thesis by blast
    next
      assume "\<exists>p<length insts. snd (chunks ! p) \<noteq> insts ! p"
      then obtain p where "p < length insts" "snd (chunks ! p) \<noteq> insts ! p" by blast
      then have "Suc p < length (I # insts) \<and> snd (?chunks ! Suc p) \<noteq> (I # insts) ! Suc p"
        by simp
      then show ?thesis by blast
    qed
  qed
  then have 3: "m' = (m \<or> (\<exists>p<length (I # insts). snd (?chunks ! p) \<noteq> (I # insts) ! p))"
    using ch(3) sh(2) by simp
  from 1 2 3 show ?case by blast
qed

section \<open>Invariants of the pool\<close>

lemma getType_valueOf: "getType (valueOf J) = itype J"
  by (simp add: valueOf_def)

lemma replaceZero_poolDefined:
  assumes "replaceZero s J C = Inr (r, s')" "poolDefined s"
  shows "poolDefined s'"
proof (rule replaceZero_cases [where st = s and Inst = J and C = C])
  assume "replaceZero s J C = Inr (None, s)"
  then show ?thesis using assms by simp
next
  fix X Y a1 a2 g
  assume XY: "X \<in> set (IntegerVect s)" "Y \<in> set (IntegerVect s)"
    and eq: "replaceZero s J C =
         Inr (Some (synthValue (nextId s) X Y (getType C)),
           s\<lparr>IntegerVect := IntegerVect s @ synthRegs (nextId s) X Y a1 a2 (getType C),
              Generator := g,
              preceding := preceding s @ synthInsts (nextId s) X Y a1 a2 (getType C),
              nextId := synthNext (nextId s) X Y (getType C)\<rparr>)"
  have "set (synthRegs (nextId s) X Y a1 a2 (getType C)) \<subseteq>
          set (IntegerVect s) \<union> valueOf ` set (synthInsts (nextId s) X Y a1 a2 (getType C))"
    using synthRegs_subset [of "nextId s" X Y a1 a2 "getType C"] XY by auto
  then have "set (IntegerVect s @ synthRegs (nextId s) X Y a1 a2 (getType C)) \<subseteq>
          valueOf ` set (preceding s @ synthInsts (nextId s) X Y a1 a2 (getType C))"
    using assms(2) unfolding poolDefined_def set_append image_Un by blast
  moreover have "s' = s\<lparr>IntegerVect := IntegerVect s @ synthRegs (nextId s) X Y a1 a2 (getType C),
              Generator := g,
              preceding := preceding s @ synthInsts (nextId s) X Y a1 a2 (getType C),
              nextId := synthNext (nextId s) X Y (getType C)\<rparr>"
    using assms(1) eq by simp
  ultimately show ?thesis by (simp add: poolDefined_def)
next
  assume "replaceZero s J C = Inl InvalidCast"
  then show ?thesis using assms(1) by simp
qed

lemma place_poolDefined: "poolDefined s \<Longrightarrow> poolDefined (place J s)"
  by (auto simp: poolDefined_def place_simps)



lemma instLoop_poolDefined:
  assumes "instLoop st insts m = Inr (st', m')" "poolDefined st"
  shows "poolDefined st'"
proof -
  have "poolDefined st \<longrightarrow> poolDefined st'"
    using assms(1)
    by (rule instLoop_rel) (auto intro: replaceZero_poolDefined place_poolDefined)
  then show ?thesis using assms(2) by simp
qed

lemma operandLoop_poolDefined:
  assumes "operandLoop st I idxs m = Inr (st', I', m')" "poolDefined st"
  shows "poolDefined st'"
proof -
  have "poolDefined st \<longrightarrow> poolDefined st'"
    using assms(1)
    by (rule operandLoop_rel) (auto intro: replaceZero_poolDefined)
  then show ?thesis using assms(2) by simp
qed

lemma instLoop_preceding:
  "instLoop st insts m = Inr (st', m') \<Longrightarrow> prefix (preceding st) (preceding st')"
  by (erule instLoop_rel) (auto intro: replaceZero_preceding simp: place_simps)



section \<open>The run over a block\<close>

lemma runOnBasicBlock_alt:
  "runOnBasicBlock st BB =
     (case instLoop (entryState st BB) (drop (getFirstInsertionPt BB) BB) False of
        Inl e \<Rightarrow> Inl e | Inr (st', modified) \<Rightarrow> Inr (modified, st'))"
  by (simp add: runOnBasicBlock_def entryState_def Let_def)

lemma runOnBasicBlock_Inr:
  "runOnBasicBlock st BB = Inr (m, st') \<longleftrightarrow>
     instLoop (entryState st BB) (drop (getFirstInsertionPt BB) BB) False = Inr (st', m)"
  by (auto simp: runOnBasicBlock_alt split: sum.splits)

lemma getFirstInsertionPt_le: "getFirstInsertionPt BB \<le> length BB"
  using length_takeWhile_le [of isPHI BB]
  by (auto simp: getFirstInsertionPt_def getFirstNonPHI_def Let_def)


lemma operandLoop_empty_pool:
  "IntegerVect st = [] \<Longrightarrow> operandLoop st Inst idxs modified = Inr (st, Inst, modified)"
  by (induction idxs) (simp_all add: replaceZero_empty split: option.splits)

lemma visit_empty_pool:
  "IntegerVect st = [] \<Longrightarrow> visit st Inst modified = Inr (st, Inst, modified)"
  by (simp add: visit_def operandLoop_empty_pool)

lemma assemble_unchanged:
  "list_all2 (\<lambda>I c. snd c = I \<and> fst c = []) insts chunks \<Longrightarrow> assemble chunks = insts"
  by (induction insts chunks rule: list_all2_induct) (auto simp: assemble_def)

lemma length_assemble: "length chunks \<le> length (assemble chunks)"
  by (induction chunks) (auto simp: assemble_def)

lemma length_assemble_changed:
  "p < length chunks \<Longrightarrow> fst (chunks ! p) \<noteq> [] \<Longrightarrow> length chunks < length (assemble chunks)"
proof (induction chunks arbitrary: p)
  case Nil
  then show ?case by simp
next
  case (Cons c chunks)
  have tl: "length chunks \<le> length (assemble chunks)" by (rule length_assemble)
  have sp: "assemble (c # chunks) = fst c @ [snd c] @ assemble chunks"
    by (cases c) (simp add: assemble_def)
  show ?case
  proof (cases p)
    case 0
    then have "fst c \<noteq> []" using Cons.prems by simp
    then show ?thesis using tl sp by (cases "fst c") simp_all
  next
    case (Suc q)
    then have "length chunks < length (assemble chunks)" using Cons by auto
    then show ?thesis using sp by simp
  qed
qed

section \<open>Where a run returns\<close>

lemma replaceZero_integerPool:
  assumes "replaceZero s J C = Inr (r, s')" "integerPool s"
  shows "integerPool s'"
  using assms synthRegs_type
  by (rule_tac replaceZero_cases [where st = s and Inst = J and C = C])
     (auto simp: integerPool_def)

lemma place_integerPool: "integerPool s \<Longrightarrow> integerPool (place J s)"
  by (auto simp: integerPool_def place_simps getType_valueOf)

lemma visit_integerPool:
  assumes "visit st I m = Inr (st', I', m')" "integerPool st"
  shows "integerPool st'"
proof -
  have "integerPool st \<longrightarrow> integerPool st'"
    using assms(1) by (rule visit_rel) (auto intro: replaceZero_integerPool)
  then show ?thesis using assms(2) by simp
qed

lemma replaceZero_returns:
  assumes "integerPool st" "castable (getType C)"
  shows "\<exists>r st'. replaceZero st Inst C = Inr (r, st')"
proof (cases "IntegerVect st = []")
  case True
  then show ?thesis using replaceZero_empty by blast
next
  case False
  then show ?thesis using replaceZero_nonempty assms by blast
qed

lemma castableZeros_setOperand:
  assumes "castableZeros I" "\<not> isConstant v"
  shows "castableZeros (setOperand I i v)"
proof -
  have "isValidCandidateOperand v \<noteq> Some v"
    using assms(2) candidate_is_constant by blast
  moreover have "set ((operands I)[i := v]) \<subseteq> insert v (set (operands I))"
    by (rule set_update_subset_insert)
  ultimately show ?thesis
    using assms(1) by (auto simp: castableZeros_def setOperand_def)
qed

lemma operandLoop_returns:
  assumes "integerPool st" "castableZeros I" "\<forall>i\<in>set idxs. i < length (operands I)"
  shows "\<exists>st' I' m'. operandLoop st I idxs m = Inr (st', I', m')"
  using assms
proof (induction idxs arbitrary: st I m)
  case Nil
  then show ?case by simp
next
  case (Cons i idxs)
  have rest: "\<forall>i\<in>set idxs. i < length (operands I)" using Cons.prems(3) by simp
  show ?case
  proof (cases "isValidCandidateOperand (getOperand I i)")
    case None
    then show ?thesis using Cons.IH [OF Cons.prems(1,2) rest] by simp
  next
    case (Some C)
    then have C: "C = operands I ! i" using candidate_is_constant by (auto simp: getOperand_def)
    have "operands I ! i \<in> set (operands I)" using Cons.prems(3) by simp
    then have "castable (getType C)"
      using Cons.prems(2) Some C by (simp add: castableZeros_def getOperand_def)
    with Cons.prems(1) obtain r s1 where rz: "replaceZero st I C = Inr (r, s1)"
      using replaceZero_returns by blast
    have pool: "integerPool s1" using rz Cons.prems(1) by (rule replaceZero_integerPool)
    show ?thesis
    proof (cases r)
      case None
      then show ?thesis using Some rz Cons.IH [OF pool Cons.prems(2) rest] by simp
    next
      case (Some v)
      then have "\<not> isConstant v" using rz replaceZero_Some by blast
      then have "castableZeros (setOperand I i v)"
        using Cons.prems(2) by (intro castableZeros_setOperand)
      moreover have "\<forall>j\<in>set idxs. j < length (operands (setOperand I i v))"
        using rest by (simp add: setOperand_def)
      ultimately show ?thesis
        using \<open>isValidCandidateOperand (getOperand I i) = Some C\<close> rz Some Cons.IH [OF pool]
        by simp
    qed
  qed
qed

lemma visit_returns:
  assumes "integerPool st" "isValidCandidateInstruction I \<longrightarrow> castableZeros I"
  shows "\<exists>st' I' m'. visit st I m = Inr (st', I', m')"
proof (cases "isValidCandidateInstruction I")
  case True
  then have "\<exists>st' I' m'. operandLoop st I [0..<getNumOperands I] m = Inr (st', I', m')"
    using assms by (intro operandLoop_returns) (simp_all add: getNumOperands_def)
  then show ?thesis using True by (simp add: visit_def)
next
  case False
  then show ?thesis by (simp add: visit_def)
qed

lemma instLoop_returns:
  assumes "integerPool st"
    and "\<forall>I\<in>set insts. isValidCandidateInstruction I \<longrightarrow> castableZeros I"
  shows "\<exists>st' m'. instLoop st insts m = Inr (st', m')"
  using assms
proof (induction insts arbitrary: st m)
  case Nil
  then show ?case by simp
next
  case (Cons I insts)
  obtain s1 I1 m1 where v: "visit st I m = Inr (s1, I1, m1)"
    using visit_returns [of st I m] Cons.prems by auto
  have "integerPool (place I1 s1)"
    using visit_integerPool [OF v Cons.prems(1)] by (rule place_integerPool)
  then have "\<exists>st' m'. instLoop (place I1 s1) insts m1 = Inr (st', m')"
    using Cons.prems(2) by (intro Cons.IH) simp_all
  then show ?case using v by (simp add: place_def)
qed

lemma runOnBasicBlock_returns:
  assumes "\<forall>I\<in>set (drop (getFirstInsertionPt BB) BB).
             isValidCandidateInstruction I \<longrightarrow> castableZeros I"
  shows "\<exists>m st'. runOnBasicBlock st BB = Inr (m, st')"
proof -
  have "integerPool (entryState st BB)" by (simp add: integerPool_def entryState_def)
  then have "\<exists>st' m. instLoop (entryState st BB) (drop (getFirstInsertionPt BB) BB) False = Inr (st', m)"
    using assms by (rule instLoop_returns)
  then show ?thesis by (auto simp: runOnBasicBlock_alt)
qed

section \<open>The example run\<close>

lemma example_insertion_point: "getFirstInsertionPt example_block = 1"
  by (simp add: getFirstInsertionPt_def getFirstNonPHI_def isPHI_def example_block_def Let_def)

lemma upt_small: "[0..<Suc (Suc 0)] = [0, Suc 0]" "[0..<Suc 0] = [0]"
  by (simp_all add: upt_rec)

lemma example_run:
  "\<exists>st'. runOnBasicBlock example_pass example_block = Inr (True, st') \<and>
          preceding st' = example_output"
  apply (simp add: runOnBasicBlock_def example_insertion_point Let_def)
  apply (simp add: example_block_def example_pass_def visit_def isValidCandidateInstruction_def
        getNumOperands_def getOperand_def setOperand_def upt_small isValidCandidateOperand_def
        registerInteger_def valueOf_def replaceZero_closed castable_def castIsValid_def Let_def)
  apply (simp add: synthValue_def synthInsts_def synthRegs_def synthNext_def sideInsts_def
        sideRegs_def sideNext_def castInsts_def castValue_def zextInsts_def chain_def valueOf_def
        Let_def example_output_def)
  done

lemma runOnBasicBlock_shape:
  assumes "runOnBasicBlock st BB = Inr (m, st')"
  shows "\<exists>chunks. preceding st' = take (getFirstInsertionPt BB) BB @ assemble chunks \<and>
           list_all2 (\<lambda>I c. rewritten I (snd c) \<and> (snd c = I \<longleftrightarrow> fst c = []) \<and>
                             (\<not> isValidCandidateInstruction I \<longrightarrow> snd c = I))
             (drop (getFirstInsertionPt BB) BB) chunks \<and>
           m = (\<exists>p<length (drop (getFirstInsertionPt BB) BB).
                  snd (chunks ! p) \<noteq> drop (getFirstInsertionPt BB) BB ! p)"
  using instLoop_shape [of "entryState st BB" "drop (getFirstInsertionPt BB) BB" False st' m] assms
  by (simp add: runOnBasicBlock_Inr entryState_def)

lemma rewritten_eq_iff: "rewritten I I' \<Longrightarrow> I' = I \<longleftrightarrow> operands I' = operands I"
  by (auto simp: rewritten_def intro: instruction.equality)

lemma example_replaceZero:
  "\<exists>st'. replaceZero example_state example_add (Constant (IntegerTy 8) 0) =
            Inr (Some (InstValue 20 (IntegerTy 8)), st')"
  by (simp add: example_state_def replaceZero_closed castable_def castIsValid_def Let_def
        synthValue_def sideNext_def castInsts_def castValue_def)

lemma example_visit:
  "\<exists>st1. visit example_state example_add False =
      Inr (st1, example_add\<lparr>operands := [InstValue 0 (IntegerTy 8), InstValue 20 (IntegerTy 8)]\<rparr>, True)"
  by (simp add: example_state_def example_add_def visit_def isValidCandidateInstruction_def
        getNumOperands_def getOperand_def setOperand_def upt_small isValidCandidateOperand_def
        replaceZero_closed castable_def castIsValid_def Let_def synthValue_def sideNext_def
        castInsts_def castValue_def)

lemma candidate_evaluates_to_zero:
  "isValidCandidateOperand V = Some C \<Longrightarrow> evalValue env C = 0"
  by (cases V) (auto simp: isValidCandidateOperand_def split: if_splits)

section \<open>Identities in the block\<close>

lemma operandLoop_append:
  "operandLoop st I (xs @ ys) m =
     (case operandLoop st I xs m of Inl e \<Rightarrow> Inl e | Inr (s, I1, m1) \<Rightarrow> operandLoop s I1 ys m1)"
proof (induction xs arbitrary: st I m)
  case Nil
  then show ?case by simp
next
  case (Cons i xs)
  show ?case
  proof (cases "isValidCandidateOperand (getOperand I i)")
    case None
    then show ?thesis using Cons.IH by simp
  next
    case (Some C)
    show ?thesis
    proof (cases "replaceZero st I C")
      case (Inl e)
      then show ?thesis using Some by simp
    next
      case (Inr res)
      then obtain r s1 where "replaceZero st I C = Inr (r, s1)" by (cases res) simp
      then show ?thesis using Some Cons.IH by (cases r) simp_all
    qed
  qed
qed

lemma replaceZero_ids:
  assumes "replaceZero s I C = Inr (r, s')" "J \<in> set (preceding s')"
  shows "J \<in> set (preceding s) \<or> nextId s \<le> iid J"
  using assms synthInsts_ids
  by (rule_tac replaceZero_cases [where st = s and Inst = I and C = C]) auto

lemma visit_ids:
  assumes "visit st I m = Inr (st', I', m')"
  shows "nextId st \<le> nextId st' \<and> (\<forall>J\<in>set (preceding st'). J \<in> set (preceding st) \<or> nextId st \<le> iid J)"
  using assms
proof (rule visit_rel)
  fix s J C r s' assume rz: "replaceZero s J C = Inr (r, s')"
  show "nextId s \<le> nextId s' \<and> (\<forall>J\<in>set (preceding s'). J \<in> set (preceding s) \<or> nextId s \<le> iid J)"
    using replaceZero_nextId [OF rz] replaceZero_ids [OF rz] by blast
next
  fix a b c :: pass_state
  assume "nextId a \<le> nextId b \<and> (\<forall>J\<in>set (preceding b). J \<in> set (preceding a) \<or> nextId a \<le> iid J)"
    and "nextId b \<le> nextId c \<and> (\<forall>J\<in>set (preceding c). J \<in> set (preceding b) \<or> nextId b \<le> iid J)"
  then show "nextId a \<le> nextId c \<and> (\<forall>J\<in>set (preceding c). J \<in> set (preceding a) \<or> nextId a \<le> iid J)"
    by (meson order_trans)
qed simp

lemma operandLoop_ids:
  assumes "operandLoop st I idxs m = Inr (st', I', m')"
  shows "nextId st \<le> nextId st' \<and> (\<forall>J\<in>set (preceding st'). J \<in> set (preceding st) \<or> nextId st \<le> iid J)"
  using assms
proof (rule operandLoop_rel)
  fix s J C r s' assume rz: "replaceZero s J C = Inr (r, s')"
  show "nextId s \<le> nextId s' \<and> (\<forall>J\<in>set (preceding s'). J \<in> set (preceding s) \<or> nextId s \<le> iid J)"
    using replaceZero_nextId [OF rz] replaceZero_ids [OF rz] by blast
next
  fix a b c :: pass_state
  assume "nextId a \<le> nextId b \<and> (\<forall>J\<in>set (preceding b). J \<in> set (preceding a) \<or> nextId a \<le> iid J)"
    and "nextId b \<le> nextId c \<and> (\<forall>J\<in>set (preceding c). J \<in> set (preceding b) \<or> nextId b \<le> iid J)"
  then show "nextId a \<le> nextId c \<and> (\<forall>J\<in>set (preceding c). J \<in> set (preceding a) \<or> nextId a \<le> iid J)"
    by (meson order_trans)
qed simp

lemma instLoop_ids:
  assumes "instLoop st insts m = Inr (st', m')"
  shows "nextId st \<le> nextId st' \<and>
         (\<forall>J\<in>set (preceding st'). J \<in> set (preceding st) \<or> iid J \<in> iid ` set insts \<or> nextId st \<le> iid J)"
  using assms
proof (induction insts arbitrary: st m)
  case Nil
  then show ?case by simp
next
  case (Cons I insts)
  obtain s1 I1 m1 where v: "visit st I m = Inr (s1, I1, m1)"
    using instLoop_Inr_step [OF Cons.prems] by blast
  then have rest: "instLoop (place I1 s1) insts m1 = Inr (st', m')"
    using Cons.prems by (simp add: place_def)
  have I1: "iid I1 = iid I" using visit_shape [OF v] by (simp add: rewritten_def)
  note a = visit_ids [OF v]
  note b = Cons.IH [OF rest]
  have n: "nextId st \<le> nextId st'" using a b by (simp add: place_simps)
  have "J \<in> set (preceding st) \<or> iid J \<in> iid ` set (I # insts) \<or> nextId st \<le> iid J"
    if J: "J \<in> set (preceding st')" for J
  proof -
    from b J consider "J \<in> set (preceding s1)" | "J = I1" | "iid J \<in> iid ` set insts"
      | "nextId s1 \<le> iid J"
      by (auto simp: place_simps)
    then show ?thesis
    proof cases
      case 1
      then show ?thesis using a by auto
    next
      case 2
      then show ?thesis using I1 by simp
    next
      case 3
      then show ?thesis by simp
    next
      case 4
      then show ?thesis using a by simp
    qed
  qed
  with n show ?case by blast
qed

lemma distinct_map_nth_notin_take:
  assumes "distinct (map f xs)" "p < length xs"
  shows "f (xs ! p) \<notin> f ` set (take p xs)"
proof -
  have "xs = take p xs @ xs ! p # drop (Suc p) xs" using assms(2) by (rule id_take_nth_drop)
  then have "distinct (map f (take p xs @ xs ! p # drop (Suc p) xs))" using assms(1) by simp
  then show ?thesis by auto
qed


lemma example_vector_run:
  "runOnBasicBlock example_state example_vector_block = Inl InvalidCast"
proof -
  let ?load = "\<lparr>iid = 1, opcode = OtherOp 0, operands = [OtherValue 101 PointerTy], itype = IntegerTy 32\<rparr>"
  let ?s0 = "\<lparr>IntegerVect = [], Generator = (\<lambda>n. n), preceding = [], nextId = 10\<rparr>"
  let ?s1 = "\<lparr>IntegerVect = [InstValue 1 (IntegerTy 32)], Generator = (\<lambda>n. n),
              preceding = [?load], nextId = 10\<rparr>"
  have k: "getFirstInsertionPt [?load, example_vector] = 0"
    by (simp add: getFirstInsertionPt_def getFirstNonPHI_def isPHI_def Let_def)
  have v0: "visit ?s0 ?load False = Inr (?s0, ?load, False)"
    by (rule visit_empty_pool) simp
  have p0: "place ?load ?s0 = ?s1"
    by (simp add: place_def registerInteger_def valueOf_def)
  have rz: "replaceZero ?s1 example_vector (Constant OtherTy 0) = Inl InvalidCast"
    by (rule replaceZero_fails) (simp_all add: castable_def castIsValid_def)
  have v1: "visit ?s1 example_vector False = Inl InvalidCast"
    using rz
    by (simp add: visit_def isValidCandidateInstruction_def getNumOperands_def getOperand_def
          upt_small isValidCandidateOperand_def example_vector_def)
  have "instLoop ?s0 [?load, example_vector] False = Inl InvalidCast"
    by (simp only: instLoop_Cons v0 p0 v1 sum.case prod.case)
  then show ?thesis
    unfolding runOnBasicBlock_def example_vector_block_def k Let_def example_state_def
    by (simp del: instLoop.simps)
qed

lemma operandLoop_not_OutOfRange: "operandLoop st I idxs m \<noteq> Inl OutOfRange"
proof (induction idxs arbitrary: st I m)
  case Nil
  then show ?case by simp
next
  case (Cons i idxs)
  show ?case
  proof (cases "isValidCandidateOperand (getOperand I i)")
    case None
    then show ?thesis using Cons.IH by simp
  next
    case (Some C)
    show ?thesis
    proof (cases "replaceZero st I C")
      case (Inl e)
      then show ?thesis using Some replaceZero_not_OutOfRange [of st I C] by simp
    next
      case (Inr res)
      then obtain r s1 where "replaceZero st I C = Inr (r, s1)" by (cases res) simp
      then show ?thesis using Some Cons.IH by (cases r) simp_all
    qed
  qed
qed

lemma instLoop_not_OutOfRange: "instLoop st insts m \<noteq> Inl OutOfRange"
proof (induction insts arbitrary: st m)
  case Nil
  then show ?case by simp
next
  case (Cons I insts)
  show ?case
  proof (cases "visit st I m")
    case (Inl e)
    then show ?thesis using operandLoop_not_OutOfRange [of st I "[0..<getNumOperands I]" m]
      by (auto simp: visit_def split: if_splits)
  next
    case (Inr res)
    then show ?thesis using Cons.IH by (cases res) simp
  qed
qed

lemma runOnBasicBlock_not_OutOfRange: "runOnBasicBlock st BB \<noteq> Inl OutOfRange"
  using instLoop_not_OutOfRange [of "entryState st BB" "drop (getFirstInsertionPt BB) BB" False]
  by (auto simp: runOnBasicBlock_alt split: sum.splits)








section \<open>The replacement evaluates to zero\<close>

text \<open>
  Claim C1. For all numbers \<open>x\<close> and \<open>y\<close> (the cast pool values) and all \<open>a1\<close>,
  \<open>a2\<close> from 2 to 11, the two products \<open>431 * ((x AND 7) OR a1)\<^sup>2\<close> and
  \<open>277 * ((y AND 7) OR a2)\<^sup>2\<close>, computed modulo \<open>2\<^sup>3\<^sup>2\<close>, differ. Hence, when
  \<open>replaceZero\<close> builds a replacement for an eligible zero operand of an integer type, the
  instructions it has put into the block run under every assignment of run-time values, and
  afterwards the replacement evaluates to 0, the value of the replaced constant; an
  instruction whose operand is replaced gets the same operand values as before.
\<close>

theorem replacement_evaluates_to_zero:
  "(2 \<le> a1 \<and> a1 \<le> 11 \<and> 2 \<le> a2 \<and> a2 \<le> 11 \<longrightarrow>
      sideValue x 7 a1 431 \<noteq> sideValue y 7 a2 277) \<and>
   (isValidCandidateOperand V = Some C \<and> getType C = IntegerTy w \<and>
    replaceZero st Inst C = Inr (Some New_val, st') \<longrightarrow>
      (\<exists>env'. execInsts env (drop (length (preceding st)) (preceding st')) = Some env' \<and>
         evalValue env' New_val = 0 \<and> evalValue env' C = 0 \<and>
         (\<forall>i<getNumOperands Inst. getOperand Inst i = C \<longrightarrow>
            map (evalValue env') (operands (setOperand Inst i New_val)) =
            map (evalValue env') (operands Inst))))"
proof (intro conjI impI)
  assume "2 \<le> a1 \<and> a1 \<le> 11 \<and> 2 \<le> a2 \<and> a2 \<le> 11"
  then show "sideValue x 7 a1 431 \<noteq> sideValue y 7 a2 277"
    by (intro sideValue_no_collision) simp_all
next
  assume h: "isValidCandidateOperand V = Some C \<and> getType C = IntegerTy w \<and>
    replaceZero st Inst C = Inr (Some New_val, st')"
  then have zero: "evalValue e C = 0" for e using candidate_evaluates_to_zero by blast
  from h have rz: "replaceZero st Inst C = Inr (Some New_val, st')" and ty: "getType C = IntegerTy w"
    by simp_all
  obtain X Y b1 b2 where b: "2 \<le> b1" "b1 \<le> 11" "2 \<le> b2" "b2 \<le> 11"
    and new: "New_val = synthValue (nextId st) X Y (getType C)"
    and pre: "preceding st' = preceding st @ synthInsts (nextId st) X Y b1 b2 (getType C)"
    using rz by (rule_tac replaceZero_cases [where st = st and Inst = Inst and C = C]) auto
  obtain env' where run: "execInsts env (synthInsts (nextId st) X Y b1 b2 (IntegerTy w)) = Some env'"
    and val: "evalValue env' (synthValue (nextId st) X Y (IntegerTy w)) = 0"
    using exec_synthInsts [OF b] by blast
  have same: "map (evalValue env') (operands (setOperand Inst i New_val)) =
            map (evalValue env') (operands Inst)"
    if "i < getNumOperands Inst" "getOperand Inst i = C" for i
  proof -
    have "map (evalValue env') (operands (setOperand Inst i New_val)) =
            (map (evalValue env') (operands Inst))[i := evalValue env' New_val]"
      by (simp add: setOperand_def map_update)
    also have "evalValue env' New_val = map (evalValue env') (operands Inst) ! i"
      using that val new ty zero [of env'] by (simp add: getNumOperands_def getOperand_def)
    finally show ?thesis by simp
  qed
  show "\<exists>env'. execInsts env (drop (length (preceding st)) (preceding st')) = Some env' \<and>
         evalValue env' New_val = 0 \<and> evalValue env' C = 0 \<and>
         (\<forall>i<getNumOperands Inst. getOperand Inst i = C \<longrightarrow>
            map (evalValue env') (operands (setOperand Inst i New_val)) =
            map (evalValue env') (operands Inst))"
    using run val new pre ty zero [of env'] same by (intro exI [of _ env']) simp
qed

theorem replacement_evaluates_to_zero_witness:
  "sideValue 5 7 2 431 = 21119 \<and> sideValue 6 7 11 277 = 62325 \<and>
   isValidCandidateOperand (getOperand example_add 1) = Some (Constant (IntegerTy 8) 0) \<and>
   (\<exists>st' env'.
      replaceZero example_state example_add (Constant (IntegerTy 8) 0) =
        Inr (Some (InstValue 20 (IntegerTy 8)), st') \<and>
      execInsts (\<lambda>n. 1000 + n) (drop (length (preceding example_state)) (preceding st')) = Some env' \<and>
      evalValue env' (InstValue 20 (IntegerTy 8)) = 0 \<and>
      map (evalValue env') (operands (setOperand example_add 1 (InstValue 20 (IntegerTy 8)))) =
      map (evalValue env') (operands example_add))"
proof -
  have s1: "sideValue 5 7 2 431 = 21119" and s2: "sideValue 6 7 11 277 = 62325"
    by (simp_all add: sideValue_def)
  have c: "isValidCandidateOperand (getOperand example_add 1) = Some (Constant (IntegerTy 8) 0)"
    by (simp add: isValidCandidateOperand_def getOperand_def example_add_def)
  obtain st' where rz: "replaceZero example_state example_add (Constant (IntegerTy 8) 0) =
        Inr (Some (InstValue 20 (IntegerTy 8)), st')"
    using example_replaceZero by blast
  note inst = replacement_evaluates_to_zero
    [of 2 11 5 6 "getOperand example_add 1" "Constant (IntegerTy 8) 0" 8 example_state example_add
        "InstValue 20 (IntegerTy 8)" st' "\<lambda>n. 1000 + n"]
  have "sideValue 5 7 2 431 \<noteq> sideValue 6 7 11 277" using inst by simp
  from inst c rz obtain env' where e:
    "execInsts (\<lambda>n. 1000 + n) (drop (length (preceding example_state)) (preceding st')) = Some env'"
    "evalValue env' (InstValue 20 (IntegerTy 8)) = 0"
    "\<forall>i<getNumOperands example_add. getOperand example_add i = Constant (IntegerTy 8) 0 \<longrightarrow>
            map (evalValue env') (operands (setOperand example_add i (InstValue 20 (IntegerTy 8)))) =
            map (evalValue env') (operands example_add)"
    by auto
  have "1 < getNumOperands example_add \<and> getOperand example_add 1 = Constant (IntegerTy 8) 0"
    by (simp add: getNumOperands_def getOperand_def example_add_def)
  with e(3) have "map (evalValue env') (operands (setOperand example_add 1 (InstValue 20 (IntegerTy 8)))) =
      map (evalValue env') (operands example_add)" by blast
  with s1 s2 c rz e(1,2) show ?thesis by blast
qed

section \<open>Eligibility of operands\<close>

text \<open>
  Claim C2. \<open>isValidCandidateOperand\<close> returns the value itself exactly when the value
  is a constant, its type is neither a pointer type nor a floating-point type, and it is
  the null (all-zero) value of its type; in every other case it returns no match.
\<close>

theorem isValidCandidateOperand_iff:
  "isValidCandidateOperand V =
     (if isConstant V \<and> \<not> isPointerTy (getType V) \<and> \<not> isFloatingPointTy (getType V) \<and>
         isNullValue V
      then Some V else None)"
  by (simp add: isValidCandidateOperand_def)

section \<open>The pool accesses of the synthesizer\<close>

text \<open>
  Claim C10. Past the emptiness guard, an index drawn by \<open>Rand\<close> (from any state of
  the engine) is at most \<open>size - 1\<close>; so \<open>at\<close> succeeds on the pool, also after the
  pool has grown by the values registered in between, and \<open>replaceZero\<close> never ends in
  the out-of-range failure. Where moreover the casts it asks for are valid (the pool values
  have an integer type and so has, with a positive width, the replaced operand), it returns a
  replacement.
\<close>

theorem replaceZero_indices_in_bounds:
  assumes "IntegerVect st \<noteq> []"
  shows "fst (uniform_int_distribution 0 (length (IntegerVect st) - 1) g) \<le> length (IntegerVect st) - 1 \<and>
         at (IntegerVect st @ ext) (fst (uniform_int_distribution 0 (length (IntegerVect st) - 1) g)) =
           Inr (IntegerVect st ! fst (uniform_int_distribution 0 (length (IntegerVect st) - 1) g)) \<and>
         replaceZero st Inst C \<noteq> Inl OutOfRange \<and>
         (integerPool st \<and> castable (getType C) \<longrightarrow>
            (\<exists>v st'. replaceZero st Inst C = Inr (Some v, st')))"
proof -
  let ?i = "fst (uniform_int_distribution 0 (length (IntegerVect st) - 1) g)"
  have le: "?i \<le> length (IntegerVect st) - 1"
    using uniform_int_distribution_range [of 0 "length (IntegerVect st) - 1" g] by simp
  have "?i < length (IntegerVect st)" using le assms by (cases "IntegerVect st") simp_all
  then have "at (IntegerVect st @ ext) ?i = Inr (IntegerVect st ! ?i)"
    by (simp add: at_def nth_append)
  moreover have "replaceZero st Inst C \<noteq> Inl OutOfRange"
    by (rule replaceZero_not_OutOfRange)
  moreover have "\<exists>v st'. replaceZero st Inst C = Inr (Some v, st')"
    if "integerPool st \<and> castable (getType C)"
    using assms that by (intro replaceZero_nonempty) simp_all
  ultimately show ?thesis using le by blast
qed

theorem replaceZero_indices_in_bounds_witness:
  "IntegerVect example_state \<noteq> [] \<and>
   fst (uniform_int_distribution 0 (length (IntegerVect example_state) - 1) (\<lambda>n. n + 5)) = 1 \<and>
   at (IntegerVect example_state @ [InstValue 7 (IntegerTy 32)])
      (fst (uniform_int_distribution 0 (length (IntegerVect example_state) - 1) (\<lambda>n. n + 5))) =
     Inr (InstValue 1 (IntegerTy 32)) \<and>
   replaceZero example_state example_add (Constant (IntegerTy 8) 0) \<noteq> Inl OutOfRange \<and>
   integerPool example_state \<and> castable (getType (Constant (IntegerTy 8) 0)) \<and>
   (\<exists>v st'. replaceZero example_state example_add (Constant (IntegerTy 8) 0) = Inr (Some v, st'))"
proof -
  have ne: "IntegerVect example_state \<noteq> []" by (simp add: example_state_def)
  have i: "fst (uniform_int_distribution 0 (length (IntegerVect example_state) - 1) (\<lambda>n. n + 5)) = 1"
    by (simp add: example_state_def uniform_int_distribution_def numeral_2_eq_2 [symmetric])
  have ok: "integerPool example_state" "castable (getType (Constant (IntegerTy 8) 0))"
    by (simp_all add: integerPool_def example_state_def castable_def castIsValid_def)
  note inst = replaceZero_indices_in_bounds
    [OF ne, of "\<lambda>n. n + 5" "[InstValue 7 (IntegerTy 32)]" example_add "Constant (IntegerTy 8) 0"]
  have a: "at (IntegerVect example_state @ [InstValue 7 (IntegerTy 32)])
      (fst (uniform_int_distribution 0 (length (IntegerVect example_state) - 1) (\<lambda>n. n + 5))) =
     Inr (InstValue 1 (IntegerTy 32))"
    using inst i by (simp add: example_state_def)
  have b: "replaceZero example_state example_add (Constant (IntegerTy 8) 0) \<noteq> Inl OutOfRange"
    using inst by blast
  have c: "\<exists>v st'. replaceZero example_state example_add (Constant (IntegerTy 8) 0) = Inr (Some v, st')"
    using inst ok by blast
  from ne i a b ok c show ?thesis by blast
qed

section \<open>Excluded instructions\<close>

text \<open>
  Claim C3. \<open>isValidCandidateInstruction\<close> is false exactly for \<open>getelementptr\<close>,
  \<open>switch\<close> and \<open>call\<close> instructions. Visiting such an instruction changes neither
  the instruction nor the state; and in the block a run leaves behind, every visited
  instruction of these kinds stands unchanged, with no instruction created in front of it.
\<close>

theorem excluded_instructions_untouched:
  "isValidCandidateInstruction Inst = (opcode Inst \<notin> {GetElementPtr, Switch, Call}) \<and>
   (\<not> isValidCandidateInstruction Inst \<longrightarrow> visit st0 Inst m0 = Inr (st0, Inst, m0)) \<and>
   (runOnBasicBlock st BB = Inr (m, st') \<longrightarrow>
      (\<exists>chunks. preceding st' = take (getFirstInsertionPt BB) BB @ assemble chunks \<and>
         length chunks = length BB - getFirstInsertionPt BB \<and>
         (\<forall>p<length chunks. \<not> isValidCandidateInstruction (BB ! (getFirstInsertionPt BB + p)) \<longrightarrow>
            chunks ! p = ([], BB ! (getFirstInsertionPt BB + p)))))"
proof (intro conjI impI)
  show "isValidCandidateInstruction Inst = (opcode Inst \<notin> {GetElementPtr, Switch, Call})"
    by (simp add: isValidCandidateInstruction_def)
  show "visit st0 Inst m0 = Inr (st0, Inst, m0)" if "\<not> isValidCandidateInstruction Inst"
    using that by (rule visit_invalid)
next
  let ?k = "getFirstInsertionPt BB"
  assume "runOnBasicBlock st BB = Inr (m, st')"
  from runOnBasicBlock_shape [OF this] obtain chunks where
    pre: "preceding st' = take ?k BB @ assemble chunks" and
    all: "list_all2 (\<lambda>I c. rewritten I (snd c) \<and> (snd c = I \<longleftrightarrow> fst c = []) \<and>
                             (\<not> isValidCandidateInstruction I \<longrightarrow> snd c = I)) (drop ?k BB) chunks"
    by blast
  have len: "length chunks = length BB - ?k"
    using list_all2_lengthD [OF all] by simp
  have "chunks ! p = ([], BB ! (?k + p))"
    if p: "p < length chunks" and inv: "\<not> isValidCandidateInstruction (BB ! (?k + p))" for p
  proof -
    have nth: "drop ?k BB ! p = BB ! (?k + p)"
      using p len by simp
    have "snd (chunks ! p) = drop ?k BB ! p \<and> (snd (chunks ! p) = drop ?k BB ! p \<longleftrightarrow> fst (chunks ! p) = [])"
      using list_all2_nthD2 [OF all p] inv nth by auto
    then have "snd (chunks ! p) = BB ! (?k + p)" "fst (chunks ! p) = []"
      using nth by auto
    then show ?thesis by (simp add: prod_eq_iff)
  qed
  with pre len show "\<exists>chunks. preceding st' = take ?k BB @ assemble chunks \<and>
         length chunks = length BB - ?k \<and>
         (\<forall>p<length chunks. \<not> isValidCandidateInstruction (BB ! (?k + p)) \<longrightarrow>
            chunks ! p = ([], BB ! (?k + p)))"
    by blast
qed


theorem excluded_instructions_untouched_witness:
  "\<not> isValidCandidateInstruction (example_block ! 3) \<and>
   visit example_state (example_block ! 3) False = Inr (example_state, example_block ! 3, False) \<and>
   (\<exists>st'. runOnBasicBlock example_pass example_block = Inr (True, st') \<and>
      (\<exists>chunks. preceding st' = take 1 example_block @ assemble chunks \<and> length chunks = 3 \<and>
         chunks ! 2 = ([], example_block ! 3)))"
proof -
  have inv: "\<not> isValidCandidateInstruction (example_block ! 3)"
    by (simp add: example_block_def isValidCandidateInstruction_def)
  obtain st' where run: "runOnBasicBlock example_pass example_block = Inr (True, st')"
    using example_run by blast
  note inst = excluded_instructions_untouched
    [of "example_block ! 3" example_state False example_pass example_block True st']
  have v: "visit example_state (example_block ! 3) False = Inr (example_state, example_block ! 3, False)"
    using inst inv by blast
  from inst run obtain chunks where ch:
    "preceding st' = take 1 example_block @ assemble chunks"
    "length chunks = length example_block - 1"
    "\<forall>p<length chunks. \<not> isValidCandidateInstruction (example_block ! (1 + p)) \<longrightarrow>
        chunks ! p = ([], example_block ! (1 + p))"
    unfolding example_insertion_point by blast
  have len: "length chunks = 3" using ch(2) by (simp add: example_block_def)
  then have "chunks ! 2 = ([], example_block ! 3)" using ch(3) inv by simp
  with inv v run ch(1) len show ?thesis by blast
qed

section \<open>The empty pool\<close>

text \<open>
  Claim C4. With an empty pool \<open>replaceZero\<close> returns no replacement and leaves the state
  as it is; the operand loop and the visit of an instruction then change neither the
  instruction nor \<open>modified\<close> and return normally. In a run the first visited instruction
  meets the empty pool: the run is the instruction loop carried on behind that instruction,
  which is placed as it was. So whenever the run returns, the first visited instruction and
  everything in front of it stand unchanged at the head of the block; and the run does return
  when the casts the later instructions ask for are valid, whatever the operands of the first
  visited instruction are.
\<close>

theorem empty_pool_is_skipped:
  "(IntegerVect st = [] \<longrightarrow>
      replaceZero st Inst C = Inr (None, st) \<and>
      operandLoop st Inst idxs modified = Inr (st, Inst, modified) \<and>
      visit st Inst modified = Inr (st, Inst, modified)) \<and>
   (getFirstInsertionPt BB < length BB \<longrightarrow>
      runOnBasicBlock st0 BB =
        (case instLoop (place (BB ! getFirstInsertionPt BB) (entryState st0 BB))
                (drop (Suc (getFirstInsertionPt BB)) BB) False of
           Inl e \<Rightarrow> Inl e
         | Inr (st', m) \<Rightarrow> Inr (m, st')) \<and>
      (\<forall>m st'. runOnBasicBlock st0 BB = Inr (m, st') \<longrightarrow>
         take (Suc (getFirstInsertionPt BB)) (preceding st') = take (Suc (getFirstInsertionPt BB)) BB) \<and>
      ((\<forall>I\<in>set (drop (Suc (getFirstInsertionPt BB)) BB).
          isValidCandidateInstruction I \<longrightarrow> castableZeros I) \<longrightarrow>
       (\<exists>m st'. runOnBasicBlock st0 BB = Inr (m, st'))))"
proof (intro conjI impI allI)
  assume "IntegerVect st = []"
  then show "replaceZero st Inst C = Inr (None, st)"
    and "operandLoop st Inst idxs modified = Inr (st, Inst, modified)"
    and "visit st Inst modified = Inr (st, Inst, modified)"
    by (rule replaceZero_empty operandLoop_empty_pool visit_empty_pool)+
next
  let ?k = "getFirstInsertionPt BB"
  let ?e = "entryState st0 BB"
  assume k: "?k < length BB"
  then have split: "drop ?k BB = BB ! ?k # drop (Suc ?k) BB"
    by (simp add: Cons_nth_drop_Suc)
  have "IntegerVect ?e = []" by (simp add: entryState_def)
  then have v: "visit ?e (BB ! ?k) False = Inr (?e, BB ! ?k, False)" by (rule visit_empty_pool)
  show eq: "runOnBasicBlock st0 BB =
        (case instLoop (place (BB ! ?k) ?e) (drop (Suc ?k) BB) False of
           Inl e \<Rightarrow> Inl e
         | Inr (st', m) \<Rightarrow> Inr (m, st'))"
    using v split by (simp add: runOnBasicBlock_alt place_def)
  {
    fix m st' assume "runOnBasicBlock st0 BB = Inr (m, st')"
    then have rest: "instLoop (place (BB ! ?k) ?e) (drop (Suc ?k) BB) False = Inr (st', m)"
      unfolding eq by (auto split: sum.splits)
    have "preceding (place (BB ! ?k) ?e) = take (Suc ?k) BB"
      using k by (simp add: place_simps entryState_def take_Suc_conv_app_nth)
    then have "prefix (take (Suc ?k) BB) (preceding st')"
      using instLoop_preceding [OF rest] by simp
    then obtain ext where "preceding st' = take (Suc ?k) BB @ ext" by (auto simp: prefix_def)
    then show "take (Suc ?k) (preceding st') = take (Suc ?k) BB" using k by simp
  }
  assume ok: "\<forall>I\<in>set (drop (Suc ?k) BB). isValidCandidateInstruction I \<longrightarrow> castableZeros I"
  have "integerPool ?e" by (simp add: integerPool_def entryState_def)
  then have "integerPool (place (BB ! ?k) ?e)" by (rule place_integerPool)
  then have "\<exists>st' m. instLoop (place (BB ! ?k) ?e) (drop (Suc ?k) BB) False = Inr (st', m)"
    using ok by (rule instLoop_returns)
  then show "\<exists>m st'. runOnBasicBlock st0 BB = Inr (m, st')"
    unfolding eq by auto
qed

theorem empty_pool_is_skipped_witness:
  "IntegerVect example_pass = [] \<and>
   replaceZero example_pass example_add (Constant (IntegerTy 8) 0) = Inr (None, example_pass) \<and>
   operandLoop example_pass example_add [0, 1] False = Inr (example_pass, example_add, False) \<and>
   visit example_pass example_add False = Inr (example_pass, example_add, False) \<and>
   getFirstInsertionPt [example_add] < length [example_add] \<and>
   (\<exists>m st'. runOnBasicBlock example_pass [example_add] = Inr (m, st') \<and>
      take 1 (preceding st') = [example_add])"
proof -
  have e: "IntegerVect example_pass = []" by (simp add: example_pass_def)
  have k: "getFirstInsertionPt [example_add] = 0"
    by (simp add: getFirstInsertionPt_def getFirstNonPHI_def isPHI_def example_add_def Let_def)
  note inst = empty_pool_is_skipped
    [of example_pass example_add "Constant (IntegerTy 8) 0" "[0, 1]" False "[example_add]" example_pass]
  have a: "replaceZero example_pass example_add (Constant (IntegerTy 8) 0) = Inr (None, example_pass)"
    "operandLoop example_pass example_add [0, 1] False = Inr (example_pass, example_add, False)"
    "visit example_pass example_add False = Inr (example_pass, example_add, False)"
    using inst e by blast+
  obtain m st' where run: "runOnBasicBlock example_pass [example_add] = Inr (m, st')"
    using inst k by auto
  then have "take 1 (preceding st') = [example_add]"
    using inst k by auto
  with e a k run show ?thesis by auto
qed

section \<open>The leading phi nodes\<close>



section \<open>The shape of a rewritten instruction\<close>

text \<open>
  Claim C8. The value \<open>replaceZero\<close> returns has the type of the operand it replaces.
  \<open>setOperand\<close> changes the operand at its index and nothing else. So after the visit of
  an instruction its result type and its number of operands are what they were, and every
  operand is either the one it was or stands for an eligible zero operand of the same type.
\<close>

theorem replacement_keeps_shape:
  "(replaceZero st Inst C = Inr (Some New_val, st') \<longrightarrow> getType New_val = getType C) \<and>
   (i < getNumOperands Inst \<longrightarrow>
      itype (setOperand Inst i v) = itype Inst \<and>
      getNumOperands (setOperand Inst i v) = getNumOperands Inst \<and>
      getOperand (setOperand Inst i v) i = v \<and>
      (\<forall>j<getNumOperands Inst. j \<noteq> i \<longrightarrow> getOperand (setOperand Inst i v) j = getOperand Inst j)) \<and>
   (visit st Inst m = Inr (st1, Inst1, m1) \<longrightarrow>
      itype Inst1 = itype Inst \<and> getNumOperands Inst1 = getNumOperands Inst \<and>
      (\<forall>j<getNumOperands Inst.
         getOperand Inst1 j = getOperand Inst j \<or>
         (isValidCandidateOperand (getOperand Inst j) = Some (getOperand Inst j) \<and>
          getType (getOperand Inst1 j) = getType (getOperand Inst j))))"
proof (intro conjI impI)
  show "getType New_val = getType C" if "replaceZero st Inst C = Inr (Some New_val, st')"
    using replaceZero_Some [OF that] by simp
next
  assume "i < getNumOperands Inst"
  then show "itype (setOperand Inst i v) = itype Inst"
    and "getNumOperands (setOperand Inst i v) = getNumOperands Inst"
    and "getOperand (setOperand Inst i v) i = v"
    and "\<forall>j<getNumOperands Inst. j \<noteq> i \<longrightarrow> getOperand (setOperand Inst i v) j = getOperand Inst j"
    by (simp_all add: setOperand_def getNumOperands_def getOperand_def)
next
  assume "visit st Inst m = Inr (st1, Inst1, m1)"
  then have r: "rewritten Inst Inst1" using visit_shape by blast
  then show "itype Inst1 = itype Inst" and "getNumOperands Inst1 = getNumOperands Inst"
    by (simp_all add: rewritten_def getNumOperands_def)
  from r show "\<forall>j<getNumOperands Inst.
         getOperand Inst1 j = getOperand Inst j \<or>
         (isValidCandidateOperand (getOperand Inst j) = Some (getOperand Inst j) \<and>
          getType (getOperand Inst1 j) = getType (getOperand Inst j))"
    by (auto simp: rewritten_def getNumOperands_def getOperand_def)
qed


theorem replacement_keeps_shape_witness:
  "\<exists>st' st1 Inst1.
     replaceZero example_state example_add (Constant (IntegerTy 8) 0) =
       Inr (Some (InstValue 20 (IntegerTy 8)), st') \<and>
     getType (InstValue 20 (IntegerTy 8)) = getType (Constant (IntegerTy 8) 0) \<and>
     1 < getNumOperands example_add \<and>
     itype (setOperand example_add 1 (InstValue 20 (IntegerTy 8))) = itype example_add \<and>
     getNumOperands (setOperand example_add 1 (InstValue 20 (IntegerTy 8))) = 2 \<and>
     getOperand (setOperand example_add 1 (InstValue 20 (IntegerTy 8))) 0 = getOperand example_add 0 \<and>
     visit example_state example_add False = Inr (st1, Inst1, True) \<and>
     itype Inst1 = IntegerTy 8 \<and> getNumOperands Inst1 = 2 \<and>
     getOperand Inst1 0 = getOperand example_add 0 \<and>
     getOperand Inst1 1 \<noteq> getOperand example_add 1 \<and>
     isValidCandidateOperand (getOperand example_add 1) = Some (getOperand example_add 1) \<and>
     getType (getOperand Inst1 1) = IntegerTy 8"
proof -
  obtain st' where rz: "replaceZero example_state example_add (Constant (IntegerTy 8) 0) =
       Inr (Some (InstValue 20 (IntegerTy 8)), st')"
    using example_replaceZero by blast
  obtain st1 where v: "visit example_state example_add False =
      Inr (st1, example_add\<lparr>operands := [InstValue 0 (IntegerTy 8), InstValue 20 (IntegerTy 8)]\<rparr>, True)"
    using example_visit by blast
  let ?I1 = "example_add\<lparr>operands := [InstValue 0 (IntegerTy 8), InstValue 20 (IntegerTy 8)]\<rparr>"
  have n: "1 < getNumOperands example_add" by (simp add: getNumOperands_def example_add_def)
  note inst = replacement_keeps_shape
    [of example_state example_add "Constant (IntegerTy 8) 0" "InstValue 20 (IntegerTy 8)" st' 1
        "InstValue 20 (IntegerTy 8)" False st1 ?I1 True]
  have a: "getType (InstValue 20 (IntegerTy 8)) = getType (Constant (IntegerTy 8) 0)"
    using inst rz by blast
  have b: "itype (setOperand example_add 1 (InstValue 20 (IntegerTy 8))) = itype example_add"
    "getNumOperands (setOperand example_add 1 (InstValue 20 (IntegerTy 8))) = getNumOperands example_add"
    "\<forall>j<getNumOperands example_add. j \<noteq> 1 \<longrightarrow>
       getOperand (setOperand example_add 1 (InstValue 20 (IntegerTy 8))) j = getOperand example_add j"
    using inst n by blast+
  have c: "itype ?I1 = itype example_add" "getNumOperands ?I1 = getNumOperands example_add"
    "\<forall>j<getNumOperands example_add. getOperand ?I1 j = getOperand example_add j \<or>
         (isValidCandidateOperand (getOperand example_add j) = Some (getOperand example_add j) \<and>
          getType (getOperand ?I1 j) = getType (getOperand example_add j))"
    using inst v by blast+
  have two: "getNumOperands example_add = 2" by (simp add: getNumOperands_def example_add_def)
  have ne: "getOperand ?I1 1 \<noteq> getOperand example_add 1"
    by (simp add: getOperand_def example_add_def)
  have ty: "itype example_add = IntegerTy 8" "getType (getOperand example_add 1) = IntegerTy 8"
    by (simp_all add: getOperand_def example_add_def)
  from c(3) n ne have d: "isValidCandidateOperand (getOperand example_add 1) = Some (getOperand example_add 1)"
    "getType (getOperand ?I1 1) = getType (getOperand example_add 1)" by blast+
  from b(3) two have e: "getOperand (setOperand example_add 1 (InstValue 20 (IntegerTy 8))) 0 = getOperand example_add 0"
    by simp
  have f: "getOperand ?I1 0 = getOperand example_add 0"
    by (simp add: getOperand_def example_add_def)
  show ?thesis
    using rz a n b(1,2) e v c(1,2) f ne d two ty by (intro exI [of _ st'] exI [of _ st1] exI [of _ ?I1]) simp
qed

section \<open>The returned flag, and the run that does not return\<close>

text \<open>
  Claim C9. \<open>runOnBasicBlock\<close> does not return for every block: on
  \<open>example_vector_block\<close> the \<open>add\<close> of vector type has an eligible zero operand, the
  pool holds the result of the \<open>load\<close>, and \<open>replaceZero\<close> asks the builder for a
  \<open>zext\<close> from \<open>i1\<close> to the vector type, an invalid cast. This is the only way a run
  fails: the out-of-range failure never occurs, and the run returns for every block in which
  the eligible zero operands of the visited instructions (those that are not
  \<open>getelementptr\<close>, \<open>switch\<close> or \<open>call\<close>) have an integer type. Whenever the run
  returns, \<open>modified\<close> is true exactly when the resulting block differs from the given
  one, and exactly when the operands of some visited instruction are no longer what they were.
\<close>

theorem runOnBasicBlock_returns_unless_invalid_cast:
  "runOnBasicBlock example_state example_vector_block = Inl InvalidCast \<and>
   runOnBasicBlock st BB \<noteq> Inl OutOfRange \<and>
   ((\<forall>I\<in>set (drop (getFirstInsertionPt BB) BB).
       isValidCandidateInstruction I \<longrightarrow> castableZeros I) \<longrightarrow>
    (\<exists>m st'. runOnBasicBlock st BB = Inr (m, st'))) \<and>
   (runOnBasicBlock st BB = Inr (m, st') \<longrightarrow>
     m = (preceding st' \<noteq> BB) \<and>
     (\<exists>chunks. preceding st' = take (getFirstInsertionPt BB) BB @ assemble chunks \<and>
        list_all2 (\<lambda>I c. iid (snd c) = iid I \<and> opcode (snd c) = opcode I \<and> itype (snd c) = itype I)
          (drop (getFirstInsertionPt BB) BB) chunks \<and>
        m = (\<exists>p<length chunks.
               operands (snd (chunks ! p)) \<noteq> operands (BB ! (getFirstInsertionPt BB + p)))))"
proof (intro conjI impI)
  show "runOnBasicBlock example_state example_vector_block = Inl InvalidCast"
    by (rule example_vector_run)
  show "runOnBasicBlock st BB \<noteq> Inl OutOfRange"
    by (rule runOnBasicBlock_not_OutOfRange)
  show "\<exists>m st'. runOnBasicBlock st BB = Inr (m, st')"
    if "\<forall>I\<in>set (drop (getFirstInsertionPt BB) BB). isValidCandidateInstruction I \<longrightarrow> castableZeros I"
    using that by (rule runOnBasicBlock_returns)
next
  let ?k = "getFirstInsertionPt BB"
  let ?P = "\<lambda>I c. rewritten I (snd c) \<and> (snd c = I \<longleftrightarrow> fst c = []) \<and>
                             (\<not> isValidCandidateInstruction I \<longrightarrow> snd c = I)"
  assume run: "runOnBasicBlock st BB = Inr (m, st')"
  from runOnBasicBlock_shape [OF run] obtain chunks where
    pre: "preceding st' = take ?k BB @ assemble chunks" and
    all: "list_all2 ?P (drop ?k BB) chunks" and
    m: "m = (\<exists>p<length (drop ?k BB). snd (chunks ! p) \<noteq> drop ?k BB ! p)"
    by blast
  have len: "length chunks = length (drop ?k BB)" using list_all2_lengthD [OF all] by simp
  have nth: "drop ?k BB ! p = BB ! (?k + p)" if "p < length chunks" for p
    using that len by simp
  have P: "?P (BB ! (?k + p)) (chunks ! p)" if "p < length chunks" for p
    using list_all2_nthD2 [OF all that] nth [OF that] by simp
  have ids: "list_all2 (\<lambda>I c. iid (snd c) = iid I \<and> opcode (snd c) = opcode I \<and> itype (snd c) = itype I)
          (drop ?k BB) chunks"
    using all by (rule list_all2_mono) (simp add: rewritten_def)
  have ops: "m = (\<exists>p<length chunks. operands (snd (chunks ! p)) \<noteq> operands (BB ! (?k + p)))"
  proof -
    have "snd (chunks ! p) \<noteq> drop ?k BB ! p \<longleftrightarrow> operands (snd (chunks ! p)) \<noteq> operands (BB ! (?k + p))"
      if "p < length chunks" for p
      using P [OF that] nth [OF that] rewritten_eq_iff by auto
    then show ?thesis unfolding m len [symmetric] by auto
  qed
  show "m = (preceding st' \<noteq> BB)"
  proof (cases m)
    case True
    then obtain p where p: "p < length chunks" "snd (chunks ! p) \<noteq> BB ! (?k + p)"
      using m len nth by auto
    then have "fst (chunks ! p) \<noteq> []" using P [OF p(1)] by auto
    then have "length chunks < length (assemble chunks)"
      using p(1) by (intro length_assemble_changed)
    then have "length (preceding st') \<noteq> length BB"
      using pre len getFirstInsertionPt_le [of BB] by simp
    then show ?thesis using True by auto
  next
    case False
    then have "\<forall>p<length chunks. snd (chunks ! p) = drop ?k BB ! p"
      using m len by auto
    then have "list_all2 (\<lambda>I c. snd c = I \<and> fst c = []) (drop ?k BB) chunks"
      using all len by (auto simp: list_all2_conv_all_nth)
    then have "assemble chunks = drop ?k BB" by (rule assemble_unchanged)
    then show ?thesis using False pre by simp
  qed
  from pre ids ops show "\<exists>chunks. preceding st' = take ?k BB @ assemble chunks \<and>
        list_all2 (\<lambda>I c. iid (snd c) = iid I \<and> opcode (snd c) = opcode I \<and> itype (snd c) = itype I)
          (drop ?k BB) chunks \<and>
        m = (\<exists>p<length chunks. operands (snd (chunks ! p)) \<noteq> operands (BB ! (?k + p)))"
    by blast
qed

theorem runOnBasicBlock_returns_unless_invalid_cast_witness:
  "drop (getFirstInsertionPt example_block) example_block =
     [example_block ! 1, example_block ! 2, example_block ! 3] \<and>
   castableZeros (example_block ! 1) \<and> castableZeros (example_block ! 2) \<and>
   \<not> isValidCandidateInstruction (example_block ! 3) \<and>
   (\<exists>st'. runOnBasicBlock example_pass example_block = Inr (True, st') \<and>
          preceding st' \<noteq> example_block) \<and>
   runOnBasicBlock example_state example_vector_block = Inl InvalidCast"
proof -
  have visited: "drop (getFirstInsertionPt example_block) example_block =
     [example_block ! 1, example_block ! 2, example_block ! 3]"
    unfolding example_insertion_point by (simp add: example_block_def)
  have each: "castableZeros (example_block ! 1)" "castableZeros (example_block ! 2)"
    "\<not> isValidCandidateInstruction (example_block ! 3)"
    by (simp_all add: example_block_def castableZeros_def isValidCandidateOperand_def castable_def
          castIsValid_def isValidCandidateInstruction_def)
  have ok: "\<forall>I\<in>set (drop (getFirstInsertionPt example_block) example_block).
       isValidCandidateInstruction I \<longrightarrow> castableZeros I"
    unfolding visited using each by simp
  obtain st'' where run: "runOnBasicBlock example_pass example_block = Inr (True, st'')"
    using example_run by blast
  note inst = runOnBasicBlock_returns_unless_invalid_cast [of example_pass example_block True st'']
  have "\<exists>m st'. runOnBasicBlock example_pass example_block = Inr (m, st')"
    using inst ok by blast
  moreover have "preceding st'' \<noteq> example_block" using inst run by blast
  moreover have "runOnBasicBlock example_state example_vector_block = Inl InvalidCast"
    using inst by blast
  ultimately show ?thesis using visited each run by blast
qed

section \<open>Definition before use\<close>

text \<open>
  Claim C5. Take the moment the operand loop of a visited instruction \<open>X\<close> reaches an
  operand index \<open>i\<close> (where \<open>replaceZero\<close> is invoked if the operand is eligible): the
  instruction loop has gone through the \<open>n\<close> instructions before \<open>X\<close>, the operand loop
  through the indices below \<open>i\<close>. Then every pool value is the result of an instruction
  that stands in front of \<open>X\<close>; in the block the run leaves behind, all those instructions
  precede \<open>X\<close>; and, the identities in the block being distinct and older than the ones
  the builder hands out, the result of \<open>X\<close> itself is not in the pool.
\<close>

theorem pool_defined_before_use:
  assumes "getFirstInsertionPt BB + n < length BB"
    and "instLoop (entryState st BB) (take n (drop (getFirstInsertionPt BB) BB)) False = Inr (stX, mX)"
    and "isValidCandidateInstruction (BB ! (getFirstInsertionPt BB + n))"
    and "i \<le> getNumOperands (BB ! (getFirstInsertionPt BB + n))"
    and "operandLoop stX (BB ! (getFirstInsertionPt BB + n)) [0..<i] mX = Inr (sti, Xi, mi)"
  shows "(\<forall>v\<in>set (IntegerVect sti). \<exists>J\<in>set (preceding sti). v = valueOf J) \<and>
         (\<forall>m st'. runOnBasicBlock st BB = Inr (m, st') \<longrightarrow>
            (\<exists>new X' post. preceding st' = preceding sti @ new @ X' # post \<and>
               rewritten (BB ! (getFirstInsertionPt BB + n)) X')) \<and>
         (distinct (map iid BB) \<and> (\<forall>J\<in>set BB. iid J < nextId st) \<longrightarrow>
            valueOf (BB ! (getFirstInsertionPt BB + n)) \<notin> set (IntegerVect sti))"
proof (intro conjI allI impI)
  let ?k = "getFirstInsertionPt BB"
  let ?X = "BB ! (?k + n)"
  let ?e = "entryState st BB"
  have "poolDefined ?e" by (simp add: poolDefined_def entryState_def)
  then have "poolDefined stX" using assms(2) instLoop_poolDefined by blast
  then have pd: "poolDefined sti" using assms(5) operandLoop_poolDefined by blast
  then show "\<forall>v\<in>set (IntegerVect sti). \<exists>J\<in>set (preceding sti). v = valueOf J"
    by (auto simp: poolDefined_def)
  have kn: "n < length (drop ?k BB)" using assms(1) by simp
  have Xn: "drop ?k BB ! n = ?X" using assms(1) by simp
  {
    fix m st' assume "runOnBasicBlock st BB = Inr (m, st')"
    then have "instLoop ?e (take n (drop ?k BB) @ ?X # drop (Suc n) (drop ?k BB)) False = Inr (st', m)"
      using id_take_nth_drop [OF kn] Xn by (simp add: runOnBasicBlock_Inr)
    then have tail: "instLoop stX (?X # drop (Suc n) (drop ?k BB)) mX = Inr (st', m)"
      using assms(2) by (simp add: instLoop_append)
    obtain stV X' mV where v: "visit stX ?X mX = Inr (stV, X', mV)"
      using instLoop_Inr_step [OF tail] by blast
    then have rest: "instLoop (place X' stV) (drop (Suc n) (drop ?k BB)) mV = Inr (st', m)"
      using tail by (simp add: place_def)
    have "[0..<getNumOperands ?X] = [0..<i] @ [i..<getNumOperands ?X]"
      using assms(4) upt_add_eq_append [of 0 i "getNumOperands ?X - i"] by simp
    then have "operandLoop sti Xi [i..<getNumOperands ?X] mi = Inr (stV, X', mV)"
      using v assms(3,5) by (simp add: visit_def operandLoop_append)
    then have "prefix (preceding sti) (preceding stV)" by (rule operandLoop_preceding)
    then obtain new where new: "preceding stV = preceding sti @ new" by (auto simp: prefix_def)
    have "prefix (preceding (place X' stV)) (preceding st')" using rest by (rule instLoop_preceding)
    then obtain post where "preceding st' = preceding stV @ X' # post"
      by (auto simp: prefix_def place_simps)
    moreover have "rewritten ?X X'" using visit_shape [OF v] by simp
    ultimately show "\<exists>new X' post. preceding st' = preceding sti @ new @ X' # post \<and> rewritten ?X X'"
      using new by auto
  }
  assume wf: "distinct (map iid BB) \<and> (\<forall>J\<in>set BB. iid J < nextId st)"
  show "valueOf ?X \<notin> set (IntegerVect sti)"
  proof
    assume "valueOf ?X \<in> set (IntegerVect sti)"
    then obtain J where J: "J \<in> set (preceding sti)" "valueOf J = valueOf ?X"
      using pd by (auto simp: poolDefined_def)
    then have id: "iid J = iid ?X" by (simp add: valueOf_def)
    have old: "iid ?X < nextId st" using wf assms(1) by simp
    note a = instLoop_ids [OF assms(2)]
    note b = operandLoop_ids [OF assms(5)]
    have e: "nextId ?e = nextId st" "preceding ?e = take ?k BB" by (simp_all add: entryState_def)
    from b J(1) id old a e have "J \<in> set (preceding stX)" by auto
    with a id old e have "iid ?X \<in> iid ` set (take ?k BB) \<or> iid ?X \<in> iid ` set (take n (drop ?k BB))"
      by (metis image_eqI not_le)
    then have "iid ?X \<in> iid ` set (take (?k + n) BB)"
      by (auto simp: take_add)
    moreover have "iid ?X \<notin> iid ` set (take (?k + n) BB)"
      using wf assms(1) by (intro distinct_map_nth_notin_take) simp_all
    ultimately show False by simp
  qed
qed


theorem pool_defined_before_use_witness:
  "\<exists>stX. instLoop (entryState example_pass example_block)
            (take 1 (drop (getFirstInsertionPt example_block) example_block)) False = Inr (stX, False) \<and>
     getFirstInsertionPt example_block + 1 < length example_block \<and>
     isValidCandidateInstruction (example_block ! 2) \<and>
     operandLoop stX (example_block ! 2) [0..<1] False = Inr (stX, example_block ! 2, False) \<and>
     isValidCandidateOperand (getOperand (example_block ! 2) 1) = Some (Constant (IntegerTy 32) 0) \<and>
     IntegerVect stX = [valueOf (example_block ! 1)] \<and>
     example_block ! 1 \<in> set (preceding stX) \<and>
     valueOf (example_block ! 2) \<notin> set (IntegerVect stX) \<and>
     (\<exists>st' new X' post. runOnBasicBlock example_pass example_block = Inr (True, st') \<and>
        preceding st' = preceding stX @ new @ X' # post \<and> rewritten (example_block ! 2) X')"
proof -
  let ?sX = "\<lparr>IntegerVect = [InstValue 1 (IntegerTy 32)], Generator = (\<lambda>n. n),
              preceding = [example_block ! 0, example_block ! 1], nextId = 4\<rparr>"
  let ?n = "getFirstInsertionPt example_block + 1"
  have k: "getFirstInsertionPt example_block = 1" by (rule example_insertion_point)
  have two: "?n = 2" by (simp add: k)
  have len: "?n < length example_block"
    unfolding two by (simp add: example_block_def)
  have reach: "instLoop (entryState example_pass example_block)
            (take 1 (drop (getFirstInsertionPt example_block) example_block)) False = Inr (?sX, False)"
    unfolding k entryState_def
    by (simp add: example_block_def example_pass_def visit_def
          isValidCandidateInstruction_def getNumOperands_def getOperand_def upt_small
          isValidCandidateOperand_def registerInteger_def valueOf_def)
  have valid: "isValidCandidateInstruction (example_block ! ?n)"
    unfolding two by (simp add: example_block_def isValidCandidateInstruction_def)
  have ops: "operandLoop ?sX (example_block ! ?n) [0..<1] False = Inr (?sX, example_block ! ?n, False)"
    unfolding two by (simp add: example_block_def upt_small getOperand_def isValidCandidateOperand_def)
  have cand: "isValidCandidateOperand (getOperand (example_block ! 2) 1) = Some (Constant (IntegerTy 32) 0)"
    by (simp add: example_block_def getOperand_def isValidCandidateOperand_def)
  have i: "1 \<le> getNumOperands (example_block ! ?n)"
    unfolding two by (simp add: example_block_def getNumOperands_def)
  have wf: "distinct (map iid example_block) \<and> (\<forall>J\<in>set example_block. iid J < nextId example_pass)"
    by (simp add: example_block_def example_pass_def)
  obtain st' where run: "runOnBasicBlock example_pass example_block = Inr (True, st')"
    using example_run by blast
  note c = pool_defined_before_use [OF len reach valid i ops, unfolded two]
  from c wf have notin: "valueOf (example_block ! 2) \<notin> set (IntegerVect ?sX)" by blast
  from c run obtain new X' post where fin:
    "preceding st' = preceding ?sX @ new @ X' # post" "rewritten (example_block ! 2) X'" by blast
  have pool: "IntegerVect ?sX = [valueOf (example_block ! 1)]"
    by (simp add: example_block_def valueOf_def)
  have mem: "example_block ! 1 \<in> set (preceding ?sX)" by simp
  have inner: "\<exists>st' new X' post. runOnBasicBlock example_pass example_block = Inr (True, st') \<and>
        preceding st' = preceding ?sX @ new @ X' # post \<and> rewritten (example_block ! 2) X'"
    using run fin by blast
  show ?thesis
    using reach len valid [unfolded two] ops [unfolded two] cand pool mem notin inner
    by (intro exI [of _ ?sX]) blast
qed

section \<open>Growth of the pool\<close>



end
